theory Spec2Isabelle
  imports Main
begin

section \<open>JavaScript values used by the converter\<close>

text \<open>
  An optional string field of the input (\<^verbatim>\<open>title?: string\<close>) is a \<open>string option\<close>;
  \<open>None\<close> stands for \<^verbatim>\<open>undefined\<close> (and for a JSON \<^verbatim>\<open>null\<close>, which every test of
  the source treats alike). A string is truthy when it is not empty.
\<close>

definition truthy :: "string option \<Rightarrow> bool" where
  "truthy v = (case v of None \<Rightarrow> False | Some s \<Rightarrow> s \<noteq> [])"

text \<open>\<^verbatim>\<open>a || b\<close> on two optional strings.\<close>

definition orElse :: "string option \<Rightarrow> string option \<Rightarrow> string option" where
  "orElse a b = (if truthy a then a else b)"

text \<open>\<^verbatim>\<open>a || 'literal'\<close>: the result is always a string.\<close>

definition orDefault :: "string option \<Rightarrow> string \<Rightarrow> string" where
  "orDefault a d = (case a of None \<Rightarrow> d | Some s \<Rightarrow> if s = [] then d else s)"

text \<open>\<^verbatim>\<open>xs.filter(Boolean)\<close> on an array of optional strings.\<close>

definition filterBoolean :: "string option list \<Rightarrow> string list" where
  "filterBoolean xs = concat (map (\<lambda>v. case v of None \<Rightarrow> [] | Some s \<Rightarrow> if s = [] then [] else [s]) xs)"

text \<open>\<^verbatim>\<open>xs.join(sep)\<close> on an array of strings.\<close>

fun join :: "string \<Rightarrow> string list \<Rightarrow> string" where
  "join sep [] = []"
| "join sep [s] = s"
| "join sep (s # t # ts) = s @ sep @ join sep (t # ts)"

text \<open>Decimal rendering of a number inside a template literal.\<close>

fun showNat :: "nat \<Rightarrow> string" where
  "showNat n = (if n < 10 then [''0123456789'' ! n]
                else showNat (n div 10) @ [''0123456789'' ! (n mod 10)])"

declare showNat.simps [simp del]

definition showInt :: "int \<Rightarrow> string" where
  "showInt i = (if i < 0 then ''-'' @ showNat (nat (- i)) else showNat (nat i))"

text \<open>\<^verbatim>\<open>${v}\<close> for an optional number: an absent one prints as \<^verbatim>\<open>undefined\<close>.\<close>

definition showNum :: "int option \<Rightarrow> string" where
  "showNum v = (case v of None \<Rightarrow> ''undefined'' | Some i \<Rightarrow> showInt i)"

text \<open>\<^verbatim>\<open>v || 0\<close> for an optional number.\<close>

definition orZero :: "int option \<Rightarrow> int" where
  "orZero v = (case v of None \<Rightarrow> 0 | Some i \<Rightarrow> i)"


section \<open>The input: a FHIR PlanDefinition\<close>

record Coding =
  c_system :: "string option"
  c_code :: "string option"
  c_display :: "string option"

record ActionType =
  coding :: "Coding list option"

record Expression =
  language :: "string option"
  expression :: "string option"

record Condition =
  kind :: "string option"
  cond_expression :: "Expression option"

record DynamicValue =
  path :: "string option"
  dv_expression :: "Expression option"

record Trigger =
  trig_type :: "string option"
  trig_name :: "string option"

record Documentation =
  doc_type :: "string option"
  doc_display :: "string option"

record RelatedAction =
  actionId :: "string option"
  relationship :: "string option"

datatype FhirAction = FhirAction
  (a_id: "string option")
  (a_title: "string option")
  (a_description: "string option")
  (a_textEquivalent: "string option")
  (a_documentation: "Documentation list option")
  (a_trigger: "Trigger list option")
  (a_condition: "Condition list option")
  (a_relatedAction: "RelatedAction list option")
  (a_type: "ActionType option")
  (a_dynamicValue: "DynamicValue list option")
  (a_action: "FhirAction list option")

record FhirPlanDefinition =
  resourceType :: "string option"
  pd_id :: "string option"
  pd_title :: "string option"
  pd_description :: "string option"
  pd_action :: "FhirAction list option"

text \<open>\<^verbatim>\<open>xs && xs.length > 0\<close> on an optional array.\<close>

definition nonEmpty :: "'a list option \<Rightarrow> bool" where
  "nonEmpty xs = (case xs of None \<Rightarrow> False | Some l \<Rightarrow> l \<noteq> [])"

text \<open>\<^verbatim>\<open>e?.language\<close> and \<^verbatim>\<open>e?.expression\<close> on an optional expression object.\<close>

definition exprLanguage :: "Expression option \<Rightarrow> string option" where
  "exprLanguage e = (case e of None \<Rightarrow> None | Some ex \<Rightarrow> language ex)"

definition exprText :: "Expression option \<Rightarrow> string option" where
  "exprText e = (case e of None \<Rightarrow> None | Some ex \<Rightarrow> expression ex)"


section \<open>BpmnFactory\<close>

text \<open>
  The factory writes only six literals into the \<^verbatim>\<open>type\<close> field of an element, so the
  field is an enumeration. The field \<^verbatim>\<open>default\<close> of the interface is never written
  or read and is left out.
\<close>

datatype ElementType =
  startEvent | endEvent | intermediateEvent | task | exclusiveGateway | sequenceFlow

record BpmnElement =
  el_id :: string
  el_type :: ElementType
  el_name :: "string option"
  el_documentation :: "string option"
  incoming :: "string list option"
  outgoing :: "string list option"
  sourceRef :: "string option"
  targetRef :: "string option"
  conditionExpression :: "string option"

record BpmnDiElement =
  di_id :: string
  bpmnElement :: string
  di_x :: "int option"
  di_y :: "int option"
  di_width :: "int option"
  di_height :: "int option"
  waypoints :: "(int \<times> int) list option"

text \<open>
  The private fields of the class. Numbers are integers: every number the factory
  computes is a sum or difference of the integer constants below and of halves of the
  three element heights, which are all even, so the division \<^verbatim>\<open>/ 2\<close> of the source
  is exact and is written \<open>div 2\<close>.
\<close>

record BpmnFactory =
  elements :: "BpmnElement list"
  diElements :: "BpmnDiElement list"
  elementCounter :: nat
  flowCounter :: nat
  currentX :: int
  currentY :: int

definition HORIZONTAL_SPACING :: int where "HORIZONTAL_SPACING = 180"
definition TASK_WIDTH :: int where "TASK_WIDTH = 120"
definition TASK_HEIGHT :: int where "TASK_HEIGHT = 80"
definition GATEWAY_SIZE :: int where "GATEWAY_SIZE = 50"
definition EVENT_SIZE :: int where "EVENT_SIZE = 36"

text \<open>\<^verbatim>\<open>new BpmnFactory()\<close>: the field initialisers.\<close>

definition newFactory :: BpmnFactory where
  "newFactory = \<lparr> elements = [], diElements = [], elementCounter = 0, flowCounter = 0,
                  currentX = 100, currentY = 150 \<rparr>"

definition generateId :: "string \<Rightarrow> BpmnFactory \<Rightarrow> BpmnFactory \<times> string" where
  "generateId prefix f =
     (f\<lparr>elementCounter := elementCounter f + 1\<rparr>,
      prefix @ ''_'' @ showNat (elementCounter f + 1))"

definition generateFlowId :: "BpmnFactory \<Rightarrow> BpmnFactory \<times> string" where
  "generateFlowId f =
     (f\<lparr>flowCounter := flowCounter f + 1\<rparr>, ''Flow_'' @ showNat (flowCounter f + 1))"

definition getCenterY :: "BpmnFactory \<Rightarrow> int \<Rightarrow> int" where
  "getCenterY f elementHeight = currentY f - elementHeight div 2"

definition advanceX :: "int \<Rightarrow> BpmnFactory \<Rightarrow> BpmnFactory" where
  "advanceX elementWidth f = f\<lparr>currentX := currentX f + (elementWidth + HORIZONTAL_SPACING)\<rparr>"

text \<open>
  The five node constructors share one shape: take an identifier, push the element, push
  its diagram shape at the cursor, advance the cursor, return the identifier.
  \<open>addNode\<close> is that shared body; each constructor below supplies its own prefix,
  element and size, as the source writes them out five times.
\<close>

definition addNode ::
  "string \<Rightarrow> (string \<Rightarrow> BpmnElement) \<Rightarrow> int \<Rightarrow> int \<Rightarrow> BpmnFactory \<Rightarrow> BpmnFactory \<times> string" where
  "addNode prefix mk w h f =
     (let (f1, i) = generateId prefix f;
          f2 = f1\<lparr>elements := elements f1 @ [mk i]\<rparr>;
          f3 = f2\<lparr>diElements := diElements f2 @
                  [\<lparr> di_id = i @ ''_di'', bpmnElement = i,
                     di_x = Some (currentX f2), di_y = Some (getCenterY f2 h),
                     di_width = Some w, di_height = Some h, waypoints = None \<rparr>]\<rparr>
      in (advanceX w f3, i))"

definition createStartEvent :: "BpmnFactory \<Rightarrow> BpmnFactory \<times> string" where
  "createStartEvent =
     addNode ''StartEvent''
       (\<lambda>i. \<lparr> el_id = i, el_type = startEvent, el_name = Some ''Start'',
              el_documentation = None, incoming = None, outgoing = Some [],
              sourceRef = None, targetRef = None, conditionExpression = None \<rparr>)
       EVENT_SIZE EVENT_SIZE"

definition createEndEvent :: "string \<Rightarrow> BpmnFactory \<Rightarrow> BpmnFactory \<times> string" where
  "createEndEvent incomingFlowId =
     addNode ''EndEvent''
       (\<lambda>i. \<lparr> el_id = i, el_type = endEvent, el_name = Some ''End'',
              el_documentation = None, incoming = Some [incomingFlowId], outgoing = None,
              sourceRef = None, targetRef = None, conditionExpression = None \<rparr>)
       EVENT_SIZE EVENT_SIZE"

definition createTask :: "string \<Rightarrow> string \<Rightarrow> string option \<Rightarrow> BpmnFactory \<Rightarrow> BpmnFactory \<times> string" where
  "createTask nm incomingFlowId doc =
     addNode ''Task''
       (\<lambda>i. \<lparr> el_id = i, el_type = task, el_name = Some nm,
              el_documentation = doc, incoming = Some [incomingFlowId], outgoing = Some [],
              sourceRef = None, targetRef = None, conditionExpression = None \<rparr>)
       TASK_WIDTH TASK_HEIGHT"

definition createExclusiveGateway :: "string \<Rightarrow> string \<Rightarrow> BpmnFactory \<Rightarrow> BpmnFactory \<times> string" where
  "createExclusiveGateway nm incomingFlowId =
     addNode ''Gateway''
       (\<lambda>i. \<lparr> el_id = i, el_type = exclusiveGateway, el_name = Some nm,
              el_documentation = None, incoming = Some [incomingFlowId], outgoing = Some [],
              sourceRef = None, targetRef = None, conditionExpression = None \<rparr>)
       GATEWAY_SIZE GATEWAY_SIZE"

definition createIntermediateEvent ::
  "string \<Rightarrow> string \<Rightarrow> string option \<Rightarrow> BpmnFactory \<Rightarrow> BpmnFactory \<times> string" where
  "createIntermediateEvent nm incomingFlowId doc =
     addNode ''IntermediateEvent''
       (\<lambda>i. \<lparr> el_id = i, el_type = intermediateEvent, el_name = Some nm,
              el_documentation = doc, incoming = Some [incomingFlowId], outgoing = Some [],
              sourceRef = None, targetRef = None, conditionExpression = None \<rparr>)
       EVENT_SIZE EVENT_SIZE"

text \<open>
  \<^verbatim>\<open>const e = this.elements.find(p); if (e) { ...mutate e... }\<close>: the first element that
  satisfies the test is changed in place, the others are untouched.
\<close>

fun updateFirst :: "('a \<Rightarrow> bool) \<Rightarrow> ('a \<Rightarrow> 'a) \<Rightarrow> 'a list \<Rightarrow> 'a list" where
  "updateFirst p g [] = []"
| "updateFirst p g (e # es) = (if p e then g e # es else e # updateFirst p g es)"

definition pushOutgoing :: "string \<Rightarrow> BpmnElement \<Rightarrow> BpmnElement" where
  "pushOutgoing i e = e\<lparr>outgoing := Some ((case outgoing e of None \<Rightarrow> [] | Some l \<Rightarrow> l) @ [i])\<rparr>"

definition pushIncoming :: "string \<Rightarrow> BpmnElement \<Rightarrow> BpmnElement" where
  "pushIncoming i e = e\<lparr>incoming := Some ((case incoming e of None \<Rightarrow> [] | Some l \<Rightarrow> l) @ [i])\<rparr>"

definition edgeFor :: "string \<Rightarrow> BpmnDiElement \<Rightarrow> BpmnDiElement \<Rightarrow> BpmnDiElement" where
  "edgeFor i sourceShape targetShape =
     (let sourceX = orZero (di_x sourceShape) + orZero (di_width sourceShape);
          sourceY = orZero (di_y sourceShape) + orZero (di_height sourceShape) div 2;
          targetX = orZero (di_x targetShape);
          targetY = orZero (di_y targetShape) + orZero (di_height targetShape) div 2
      in \<lparr> di_id = i @ ''_di'', bpmnElement = i,
            di_x = None, di_y = None, di_width = None, di_height = None,
            waypoints = Some [(sourceX, sourceY), (targetX, targetY)] \<rparr>)"

definition createSequenceFlow ::
  "string \<Rightarrow> string \<Rightarrow> string option \<Rightarrow> string option \<Rightarrow> BpmnFactory \<Rightarrow> BpmnFactory \<times> string" where
  "createSequenceFlow sourceId targetId condExpr nm f =
     (let (f1, i) = generateFlowId f;
          flow = \<lparr> el_id = i, el_type = sequenceFlow,
                   el_name = (if truthy nm then nm else None),
                   el_documentation = None, incoming = None, outgoing = None,
                   sourceRef = Some sourceId, targetRef = Some targetId,
                   conditionExpression = (if truthy condExpr then condExpr else None) \<rparr>;
          es1 = elements f1 @ [flow];
          es2 = updateFirst (\<lambda>e. el_id e = sourceId) (pushOutgoing i) es1;
          es3 = updateFirst (\<lambda>e. el_id e = targetId) (pushIncoming i) es2;
          sourceShape = find (\<lambda>d. bpmnElement d = sourceId) (diElements f1);
          targetShape = find (\<lambda>d. bpmnElement d = targetId) (diElements f1);
          dis = (case (sourceShape, targetShape) of
                   (Some s, Some t) \<Rightarrow> diElements f1 @ [edgeFor i s t]
                 | _ \<Rightarrow> diElements f1)
      in (f1\<lparr>elements := es3, diElements := dis\<rparr>, i))"


section \<open>The documentation composer\<close>

definition listOf :: "'a list option \<Rightarrow> 'a list" where
  "listOf xs = (case xs of None \<Rightarrow> [] | Some l \<Rightarrow> l)"

definition strOf :: "string option \<Rightarrow> string" where
  "strOf v = (case v of None \<Rightarrow> [] | Some s \<Rightarrow> s)"

text \<open>\<^verbatim>\<open>e?.language ? ` (${e.language})` : ''\<close>\<close>

definition langSuffix :: "Expression option \<Rightarrow> string" where
  "langSuffix e = (if truthy (exprLanguage e) then '' ('' @ strOf (exprLanguage e) @ '')'' else [])"

text \<open>\<^verbatim>\<open>action.type?.coding\<close>\<close>

definition typeCoding :: "FhirAction \<Rightarrow> Coding list option" where
  "typeCoding action = (case a_type action of None \<Rightarrow> None | Some t \<Rightarrow> coding t)"

definition newline :: string where
  "newline = [CHR 0x0A]"

definition descriptionPart :: "FhirAction \<Rightarrow> string list" where
  "descriptionPart action =
     (if truthy (a_description action)
      then [''Description: '' @ strOf (a_description action)] else [])"

definition textPart :: "FhirAction \<Rightarrow> string list" where
  "textPart action =
     (if truthy (a_textEquivalent action)
      then [''Text: '' @ strOf (a_textEquivalent action)] else [])"

definition typePart :: "FhirAction \<Rightarrow> string list" where
  "typePart action =
     (if nonEmpty (typeCoding action)
      then [''Type: '' @ join '', ''
              (filterBoolean (map (\<lambda>c. orElse (c_display c) (c_code c))
                                  (listOf (typeCoding action))))]
      else [])"

definition triggersPart :: "FhirAction \<Rightarrow> string list" where
  "triggersPart action =
     (if nonEmpty (a_trigger action)
      then [''Triggers: '' @ join ''; ''
              (map (\<lambda>t. orDefault (trig_type t) ''event'' @ '': '' @
                         orDefault (trig_name t) ''unnamed'')
                   (listOf (a_trigger action)))]
      else [])"

definition conditionLine :: "nat \<times> Condition \<Rightarrow> string" where
  "conditionLine p =
     (case p of (idx, cond) \<Rightarrow>
        ''Condition '' @ showNat (idx + 1) @ '': '' @
        orDefault (exprText (cond_expression cond)) ''condition'' @
        langSuffix (cond_expression cond))"

definition dynamicValueLine :: "nat \<times> DynamicValue \<Rightarrow> string" where
  "dynamicValueLine p =
     (case p of (idx, dv) \<Rightarrow>
        ''Dynamic Value '' @ showNat (idx + 1) @ '': '' @
        orDefault (path dv) ''path'' @ '' = '' @
        orDefault (exprText (dv_expression dv)) ''expression'' @
        langSuffix (dv_expression dv))"

definition documentationLine :: "nat \<times> Documentation \<Rightarrow> string list" where
  "documentationLine p =
     (case p of (idx, doc) \<Rightarrow>
        if truthy (doc_display doc)
        then [''Documentation '' @ showNat (idx + 1) @ '': '' @ strOf (doc_display doc)]
        else [])"

text \<open>
  \<open>docParts\<close> is the array the source pushes to, in the order of its seven blocks;
  \<^verbatim>\<open>forEach((v, idx) => ...)\<close> is a map over the enumerated array.
\<close>

definition docParts :: "FhirAction \<Rightarrow> string list" where
  "docParts action =
     descriptionPart action @ textPart action @ typePart action @ triggersPart action @
     map conditionLine (enumerate 0 (listOf (a_condition action))) @
     map dynamicValueLine (enumerate 0 (listOf (a_dynamicValue action))) @
     concat (map documentationLine (enumerate 0 (listOf (a_documentation action))))"

definition buildActionDocumentation :: "FhirAction \<Rightarrow> string" where
  "buildActionDocumentation action = join newline (docParts action)"


section \<open>The action tree walker\<close>

text \<open>Lines 114 to 123 of the loop body: the intermediate event of an action with triggers.\<close>

definition triggerStep :: "FhirAction \<Rightarrow> string \<Rightarrow> string \<Rightarrow> BpmnFactory \<Rightarrow> BpmnFactory \<times> string" where
  "triggerStep action documentation lastElementId f =
     (if nonEmpty (a_trigger action) then
        let triggerNames = join '', ''
              (filterBoolean (map (\<lambda>t. orElse (trig_name t) (trig_type t))
                                  (listOf (a_trigger action))));
            (f1, eventId) = createIntermediateEvent (''Trigger: '' @ triggerNames)
                               ''temp_incoming'' (Some documentation) f;
            (f2, flowId) = createSequenceFlow lastElementId eventId None None f1
        in (f2, eventId)
      else (f, lastElementId))"

text \<open>
  Lines 126 to 150 and 156 to 163: gateway and task of an action with a condition, or the
  plain task of an action without one.
\<close>

definition taskStep ::
  "FhirAction \<Rightarrow> string \<Rightarrow> string \<Rightarrow> string \<Rightarrow> BpmnFactory \<Rightarrow> BpmnFactory \<times> string" where
  "taskStep action actionName documentation lastElementId f =
     (case a_condition action of
        Some (condition # others) \<Rightarrow>
          let conditionText = orDefault (exprText (cond_expression condition)) ''Check Condition'';
              (f1, gatewayId) = createExclusiveGateway (''Decision: '' @ conditionText)
                                   ''temp_incoming'' f;
              (f2, flowId) = createSequenceFlow lastElementId gatewayId None None f1;
              (f3, taskId) = createTask actionName ''temp_incoming'' (Some documentation) f2;
              (f4, yesId) = createSequenceFlow gatewayId taskId
                               (exprText (cond_expression condition)) (Some ''Yes'') f3
          in (f4, taskId)
      | _ \<Rightarrow>
          let (f1, taskId) = createTask actionName ''temp_incoming'' (Some documentation) f;
              (f2, flowId) = createSequenceFlow lastElementId taskId None None f1
          in (f2, taskId))"

definition actionName :: "nat \<Rightarrow> FhirAction \<Rightarrow> string" where
  "actionName i action =
     orDefault (a_title action)
       (orDefault (a_description action) (''Action '' @ showNat (i + 1)))"

text \<open>
  What the conversion can throw. \<open>InvalidPlanDefinition\<close> is the error of the root
  check. \<open>RangeError\<close> is the error of the engine when its call stack is full:
  \<^verbatim>\<open>processActions\<close> calls itself once for every level of nested actions, with
  no bound on the depth.
\<close>

datatype error = InvalidPlanDefinition | RangeError

text \<open>
  The loop of \<^verbatim>\<open>processActions\<close> over \<^verbatim>\<open>actions[i]\<close>, \<^verbatim>\<open>i\<close> counting from the
  index given, with the recursive call on the nested actions. Both branches of the
  source end with the same test for nested actions, written once here.

  The size of the call stack is a constant of the engine, not of the program, so it is a
  parameter: \<open>stack\<close> is the number of activations of \<^verbatim>\<open>processActions\<close>, one
  inside the other, the call stack has room for. An activation for which there is no
  room throws; the loop over the siblings runs inside one activation, the call on the
  nested actions is an activation of its own. An error of the nested call leaves the
  loop: nothing in \<^verbatim>\<open>processActions\<close> catches it. The calls whose depth does not
  grow with the document (the methods of the factory, the composer of the
  documentation) are taken to fit.
\<close>

function processActions ::
  "nat \<Rightarrow> nat \<Rightarrow> FhirAction list \<Rightarrow> string \<Rightarrow> BpmnFactory \<Rightarrow> error + BpmnFactory \<times> string" where
  "processActions 0 i actions lastElementId f = Inl RangeError"
| "processActions (Suc stack) i [] lastElementId f = Inr (f, lastElementId)"
| "processActions (Suc stack) i (action # rest) lastElementId f =
     (let documentation = buildActionDocumentation action;
          (f1, l1) = triggerStep action documentation lastElementId f;
          (f2, l2) = taskStep action (actionName i action) documentation l1 f1
      in case (if nonEmpty (a_action action)
               then processActions stack 0 (listOf (a_action action)) l2 f2
               else Inr (f2, l2)) of
           Inl e \<Rightarrow> Inl e
         | Inr (f3, l3) \<Rightarrow> processActions (Suc stack) (Suc i) rest l3 f3)"
  by pat_completeness auto

termination processActions
proof (relation "measure (\<lambda>(stack, i, actions, l, f). size_list size actions)")
  fix action :: FhirAction and rest :: "FhirAction list"
  have "size_list size (listOf (a_action action)) < Suc (size action + size_list size rest)"
    by (cases action) (simp add: listOf_def split: option.split)
  then show "((stack, 0, listOf (a_action action), l, g), (stack', i, action # rest, l', g'))
               \<in> measure (\<lambda>(stack, i, actions, l, f). size_list size actions)"
    for stack stack' i l l' g g'
    by simp
qed simp_all


section \<open>The XML serializer\<close>

text \<open>\<^verbatim>\<open>text.replace(/c/g, r)\<close> for a pattern of one character.\<close>

definition replaceAll :: "char \<Rightarrow> string \<Rightarrow> string \<Rightarrow> string" where
  "replaceAll c r text = concat (map (\<lambda>d. if d = c then r else [d]) text)"

definition escapeXml :: "string \<Rightarrow> string" where
  "escapeXml text =
     (if text = [] then []
      else replaceAll (CHR 0x27) ''&apos;''
            (replaceAll (CHR 0x22) ''&quot;''
              (replaceAll CHR ''>'' ''&gt;''
                (replaceAll CHR ''<'' ''&lt;''
                  (replaceAll CHR ''&'' ''&amp;'' text)))))"

definition openTag :: "string \<Rightarrow> BpmnElement \<Rightarrow> string \<Rightarrow> string" where
  \<open>openTag tag element indent =
     indent @ ''<bpmn:'' @ tag @ '' id="'' @ escapeXml (el_id element) @
     ''" name="'' @ escapeXml (orDefault (el_name element) []) @ ''">''\<close>

definition closeTag :: "string \<Rightarrow> string \<Rightarrow> string" where
  "closeTag tag indent = indent @ ''</bpmn:'' @ tag @ ''>''"

definition documentationXml :: "BpmnElement \<Rightarrow> string \<Rightarrow> string list" where
  "documentationXml element indent =
     (if truthy (el_documentation element)
      then [indent @ ''  <bpmn:documentation>'' @ escapeXml (strOf (el_documentation element)) @
            ''</bpmn:documentation>'']
      else [])"

definition incomingXml :: "BpmnElement \<Rightarrow> string \<Rightarrow> string list" where
  "incomingXml element indent =
     map (\<lambda>inc. indent @ ''  <bpmn:incoming>'' @ escapeXml inc @ ''</bpmn:incoming>'')
         (listOf (incoming element))"

definition outgoingXml :: "BpmnElement \<Rightarrow> string \<Rightarrow> string list" where
  "outgoingXml element indent =
     map (\<lambda>out. indent @ ''  <bpmn:outgoing>'' @ escapeXml out @ ''</bpmn:outgoing>'')
         (listOf (outgoing element))"

definition flowAttrs :: "BpmnElement \<Rightarrow> string list" where
  \<open>flowAttrs element =
     [''id="'' @ escapeXml (el_id element) @ ''"'',
      ''sourceRef="'' @ escapeXml (orDefault (sourceRef element) []) @ ''"'',
      ''targetRef="'' @ escapeXml (orDefault (targetRef element) []) @ ''"''] @
     (if truthy (el_name element)
      then [''name="'' @ escapeXml (strOf (el_name element)) @ ''"''] else [])\<close>

definition flowXml :: "BpmnElement \<Rightarrow> string \<Rightarrow> string list" where
  \<open>flowXml element indent =
     (if truthy (conditionExpression element)
      then [indent @ ''<bpmn:sequenceFlow '' @ join '' '' (flowAttrs element) @ ''>'',
            indent @ ''  <bpmn:conditionExpression xsi:type="bpmn:tFormalExpression" xmlns:xsi="http://www.w3.org/2001/XMLSchema-instance">'' @
              escapeXml (strOf (conditionExpression element)) @ ''</bpmn:conditionExpression>'',
            indent @ ''</bpmn:sequenceFlow>'']
      else [indent @ ''<bpmn:sequenceFlow '' @ join '' '' (flowAttrs element) @ '' />''])\<close>

text \<open>The lines of one element, one case of the \<^verbatim>\<open>switch\<close> each.\<close>

definition elementLines :: "BpmnElement \<Rightarrow> string \<Rightarrow> string list" where
  "elementLines element indent =
     (case el_type element of
        startEvent \<Rightarrow>
          [openTag ''startEvent'' element indent] @ documentationXml element indent @
          outgoingXml element indent @ [closeTag ''startEvent'' indent]
      | endEvent \<Rightarrow>
          [openTag ''endEvent'' element indent] @ documentationXml element indent @
          incomingXml element indent @ [closeTag ''endEvent'' indent]
      | intermediateEvent \<Rightarrow>
          [openTag ''intermediateCatchEvent'' element indent] @ documentationXml element indent @
          incomingXml element indent @ outgoingXml element indent @
          [closeTag ''intermediateCatchEvent'' indent]
      | task \<Rightarrow>
          [openTag ''task'' element indent] @ documentationXml element indent @
          incomingXml element indent @ outgoingXml element indent @
          [closeTag ''task'' indent]
      | exclusiveGateway \<Rightarrow>
          [openTag ''exclusiveGateway'' element indent] @ documentationXml element indent @
          incomingXml element indent @ outgoingXml element indent @
          [closeTag ''exclusiveGateway'' indent]
      | sequenceFlow \<Rightarrow> flowXml element indent)"

definition generateElementXml :: "BpmnElement \<Rightarrow> string \<Rightarrow> string" where
  "generateElementXml element indent = join newline (elementLines element indent)"

definition generateDiXml :: "BpmnDiElement \<Rightarrow> string \<Rightarrow> string" where
  \<open>generateDiXml diElement indent =
     join newline
       (case waypoints diElement of
          Some wps \<Rightarrow>
            [indent @ ''<bpmndi:BPMNEdge id="'' @ escapeXml (di_id diElement) @
               ''" bpmnElement="'' @ escapeXml (bpmnElement diElement) @ ''">''] @
            map (\<lambda>wp. indent @ ''  <di:waypoint x="'' @ showInt (fst wp) @
                        ''" y="'' @ showInt (snd wp) @ ''" />'') wps @
            [indent @ ''</bpmndi:BPMNEdge>'']
        | None \<Rightarrow>
            [indent @ ''<bpmndi:BPMNShape id="'' @ escapeXml (di_id diElement) @
               ''" bpmnElement="'' @ escapeXml (bpmnElement diElement) @ ''">'',
             indent @ ''  <dc:Bounds x="'' @ showNum (di_x diElement) @
               ''" y="'' @ showNum (di_y diElement) @
               ''" width="'' @ showNum (di_width diElement) @
               ''" height="'' @ showNum (di_height diElement) @ ''" />'',
             indent @ ''</bpmndi:BPMNShape>''])\<close>

definition xmlHeader :: "string list" where
  \<open>xmlHeader =
     [''<?xml version="1.0" encoding="UTF-8"?>'',
      ''<bpmn:definitions '' @
      ''xmlns:bpmn="http://www.omg.org/spec/BPMN/20100524/MODEL" '' @
      ''xmlns:bpmndi="http://www.omg.org/spec/BPMN/20100524/DI" '' @
      ''xmlns:dc="http://www.omg.org/spec/DD/20100524/DC" '' @
      ''xmlns:di="http://www.omg.org/spec/DD/20100524/DI" '' @
      ''id="Definitions_1" '' @
      ''targetNamespace="http://bpmn.io/schema/bpmn">'']\<close>

definition xmlLines ::
  "string \<Rightarrow> string \<Rightarrow> string option \<Rightarrow> BpmnElement list \<Rightarrow> BpmnDiElement list \<Rightarrow> string list" where
  \<open>xmlLines processId processName processDescription els dis =
     xmlHeader @
     [''  <bpmn:process id="'' @ escapeXml processId @ ''" name="'' @ escapeXml processName @
        ''" isExecutable="true">''] @
     (if truthy processDescription
      then [''    <bpmn:documentation>'' @ escapeXml (strOf processDescription) @
            ''</bpmn:documentation>'']
      else []) @
     map (\<lambda>element. generateElementXml element ''    '') els @
     [''  </bpmn:process>'',
      ''  <bpmndi:BPMNDiagram id="BPMNDiagram_1">'',
      ''    <bpmndi:BPMNPlane id="BPMNPlane_1" bpmnElement="'' @ escapeXml processId @ ''">''] @
     map (\<lambda>diElement. generateDiXml diElement ''      '') dis @
     [''    </bpmndi:BPMNPlane>'',
      ''  </bpmndi:BPMNDiagram>'',
      ''</bpmn:definitions>'']\<close>

definition generateBpmnXml ::
  "string \<Rightarrow> string \<Rightarrow> string option \<Rightarrow> BpmnElement list \<Rightarrow> BpmnDiElement list \<Rightarrow> string" where
  "generateBpmnXml processId processName processDescription els dis =
     join newline (xmlLines processId processName processDescription els dis)"


section \<open>The conversion\<close>

text \<open>
  What the conversion writes to the console: the warning of a plan without actions,
  and the error the \<^verbatim>\<open>catch\<close> block logs before it throws it again.
\<close>

datatype consoleEntry = Warn string | LogError error

text \<open>
  Lines 72 to 85, with the factory of line 67 as a parameter: the graph built in the
  given factory, when the stack has room for \<open>stack\<close> nested activations of
  \<^verbatim>\<open>processActions\<close>. The result is the error thrown, or the console output and the
  factory as \<^verbatim>\<open>getBpmnJson\<close> reads it.
\<close>

definition graphWith ::
  "nat \<Rightarrow> BpmnFactory \<Rightarrow> FhirPlanDefinition \<Rightarrow> error + consoleEntry list \<times> BpmnFactory" where
  "graphWith stack factory planDefinition =
     (let (f1, startEventId) = createStartEvent factory
      in case (if nonEmpty (pd_action planDefinition)
               then map_sum id (Pair [])
                      (processActions stack 0 (listOf (pd_action planDefinition)) startEventId f1)
               else Inr ([Warn ''PlanDefinition has no actions''], f1, startEventId)) of
           Inl e \<Rightarrow> Inl e
         | Inr (console, f2, lastElementId) \<Rightarrow>
             let (f3, endEventId) = createEndEvent ''temp_incoming'' f2;
                 (f4, flowId) = createSequenceFlow lastElementId endEventId None None f3
             in Inr (console, f4))"

text \<open>Line 67: every call works in a factory of its own, \<^verbatim>\<open>new BpmnFactory()\<close>.\<close>

definition buildGraph :: "nat \<Rightarrow> FhirPlanDefinition \<Rightarrow> error + consoleEntry list \<times> BpmnFactory" where
  "buildGraph stack planDefinition = graphWith stack newFactory planDefinition"

text \<open>
  \<^verbatim>\<open>convertPlanDefinitionToBpmn\<close>. The argument is \<open>None\<close> for a falsy document
  (\<^verbatim>\<open>null\<close>, \<^verbatim>\<open>undefined\<close>); a \<open>resourceType\<close> that is absent or not a string is
  \<open>None\<close> in the record. The check of the root comes first and nothing is built when
  it fails. Whatever is thrown inside the \<^verbatim>\<open>try\<close> block, by the root check or by the
  engine during the walk, is logged by the \<^verbatim>\<open>catch\<close> block and thrown again.
\<close>

definition convertPlanDefinitionToBpmn ::
  "nat \<Rightarrow> FhirPlanDefinition option \<Rightarrow> consoleEntry list \<times> (error + string)" where
  "convertPlanDefinitionToBpmn stack input =
     (case input of
        None \<Rightarrow> ([LogError InvalidPlanDefinition], Inl InvalidPlanDefinition)
      | Some planDefinition \<Rightarrow>
          if resourceType planDefinition \<noteq> Some ''PlanDefinition''
          then ([LogError InvalidPlanDefinition], Inl InvalidPlanDefinition)
          else
            let processId = orDefault (pd_id planDefinition) ''Process_1'';
                processName = orDefault (pd_title planDefinition) ''PlanDefinition Process'';
                processDescription = pd_description planDefinition
            in case buildGraph stack planDefinition of
                 Inl e \<Rightarrow> ([LogError e], Inl e)
               | Inr (console, f) \<Rightarrow>
                   (console, Inr (generateBpmnXml processId processName processDescription
                                    (elements f) (diElements f))))"

text \<open>\<^verbatim>\<open>planDefinition?.resourceType\<close>: the root type of a document, if it has one.\<close>

definition rootType :: "FhirPlanDefinition option \<Rightarrow> string option" where
  "rootType input = (case input of None \<Rightarrow> None | Some planDefinition \<Rightarrow> resourceType planDefinition)"


section \<open>Vocabulary of the properties\<close>

text \<open>
  The definitions of this section are not part of the program: they name what the
  properties below talk about.
\<close>

text \<open>An element without its linkage lists, which only \<open>createSequenceFlow\<close> changes.\<close>

definition unlinked :: "BpmnElement \<Rightarrow> BpmnElement" where
  "unlinked e = e\<lparr>incoming := None, outgoing := None\<rparr>"

definition node :: "string \<Rightarrow> ElementType \<Rightarrow> string \<Rightarrow> string option \<Rightarrow> BpmnElement" where
  "node i ty nm doc =
     \<lparr> el_id = i, el_type = ty, el_name = Some nm, el_documentation = doc,
       incoming = None, outgoing = None, sourceRef = None, targetRef = None,
       conditionExpression = None \<rparr>"

definition flow :: "string \<Rightarrow> string \<Rightarrow> string \<Rightarrow> string option \<Rightarrow> string option \<Rightarrow> BpmnElement" where
  "flow i src tgt nm cond =
     \<lparr> el_id = i, el_type = sequenceFlow, el_name = nm, el_documentation = None,
       incoming = None, outgoing = None, sourceRef = Some src, targetRef = Some tgt,
       conditionExpression = cond \<rparr>"

text \<open>The identifiers the next node and the next flow of a factory receive.\<close>

definition nodeId :: "string \<Rightarrow> BpmnFactory \<Rightarrow> string" where
  "nodeId prefix f = prefix @ ''_'' @ showNat (elementCounter f + 1)"

definition flowId :: "BpmnFactory \<Rightarrow> string" where
  "flowId f = ''Flow_'' @ showNat (flowCounter f + 1)"

text \<open>
  The trigger names, each falling back to the trigger type, without the empty ones,
  joined with a comma and a space.
\<close>

definition triggerLabel :: "Trigger list \<Rightarrow> string" where
  "triggerLabel ts =
     join '', '' (filterBoolean (map (\<lambda>t. orElse (trig_name t) (trig_type t)) ts))"



text \<open>A diagram shape and a diagram edge, and the two points an edge joins.\<close>

definition shape :: "string \<Rightarrow> int \<Rightarrow> int \<Rightarrow> int \<Rightarrow> int \<Rightarrow> BpmnDiElement" where
  "shape i x y w h =
     \<lparr> di_id = i @ ''_di'', bpmnElement = i, di_x = Some x, di_y = Some y,
       di_width = Some w, di_height = Some h, waypoints = None \<rparr>"

definition edge :: "string \<Rightarrow> int \<times> int \<Rightarrow> int \<times> int \<Rightarrow> BpmnDiElement" where
  "edge i p q =
     \<lparr> di_id = i @ ''_di'', bpmnElement = i, di_x = None, di_y = None,
       di_width = None, di_height = None, waypoints = Some [p, q] \<rparr>"

definition rightMiddle :: "BpmnDiElement \<Rightarrow> int \<times> int" where
  "rightMiddle d =
     (orZero (di_x d) + orZero (di_width d), orZero (di_y d) + orZero (di_height d) div 2)"

definition leftMiddle :: "BpmnDiElement \<Rightarrow> int \<times> int" where
  "leftMiddle d = (orZero (di_x d), orZero (di_y d) + orZero (di_height d) div 2)"

text \<open>
  A constructor called in factory \<open>f\<close> places a shape of width \<open>w\<close> and height \<open>h\<close>:
  the shape is appended at the cursor, centred on the centre line, and the cursor
  moves on by the width and the spacing.
\<close>

definition placed :: "BpmnFactory \<Rightarrow> int \<Rightarrow> int \<Rightarrow> BpmnFactory \<times> string \<Rightarrow> bool" where
  "placed f w h r =
     (case r of (f', i) \<Rightarrow>
        diElements f' = diElements f @ [shape i (currentX f) (currentY f - h div 2) w h] \<and>
        2 * (currentY f - h div 2) + h = 2 * currentY f \<and>
        currentX f' = currentX f + (w + HORIZONTAL_SPACING) \<and>
        currentY f' = currentY f)"





text \<open>
  The shapes of a diagram, in the order of their creation, are laid out from \<open>x\<close> to the
  cursor \<open>c\<close> on the centre line \<open>cy\<close>: the first shape is at \<open>x\<close>, every shape is
  centred on \<open>cy\<close>, the next one is at the previous position plus the previous width
  plus the spacing, and the cursor is where the next shape would go. Edges are passed over.
\<close>

fun laidOut :: "int \<Rightarrow> int \<Rightarrow> BpmnDiElement list \<Rightarrow> int \<Rightarrow> bool" where
  "laidOut cy x [] c = (x = c)"
| "laidOut cy x (d # ds) c =
     (if waypoints d \<noteq> None then laidOut cy x ds c
      else di_x d = Some x \<and> di_width d \<noteq> None \<and>
           2 * orZero (di_y d) + orZero (di_height d) = 2 * cy \<and>
           laidOut cy (x + (orZero (di_width d) + HORIZONTAL_SPACING)) ds c)"

text \<open>
  The flow \<open>e\<close> has its edge in the diagram \<open>ds\<close>: both ends of the flow have a
  shape, and the edge of the flow runs from the middle of the right side of the source
  shape to the middle of the left side of the target shape.
\<close>

definition edgeJoins :: "BpmnDiElement list \<Rightarrow> BpmnElement \<Rightarrow> bool" where
  "edgeJoins ds e =
     (case sourceRef e of None \<Rightarrow> False | Some s \<Rightarrow>
      case targetRef e of None \<Rightarrow> False | Some t \<Rightarrow>
      case find (\<lambda>d. bpmnElement d = s) ds of None \<Rightarrow> False | Some ss \<Rightarrow>
      case find (\<lambda>d. bpmnElement d = t) ds of None \<Rightarrow> False | Some ts \<Rightarrow>
        waypoints ss = None \<and> waypoints ts = None \<and>
        edge (el_id e) (rightMiddle ss) (leftMiddle ts) \<in> set ds)"

text \<open>The number a decimal string denotes, and the number at the end of an identifier.\<close>

definition digitValue :: "char \<Rightarrow> nat" where
  "digitValue c = length (takeWhile (\<lambda>d. d \<noteq> c) ''0123456789'')"

definition readNat :: "string \<Rightarrow> nat" where
  "readNat s = foldl (\<lambda>a c. 10 * a + digitValue c) 0 s"

definition idNumber :: "string \<Rightarrow> nat" where
  "idNumber s = readNat (rev (takeWhile (\<lambda>c. c \<noteq> CHR ''_'') (rev s)))"

text \<open>
  The linkage of a graph. \<open>flowsFrom es i\<close> and \<open>flowsTo es i\<close> are the identifiers
  of the flows of \<open>es\<close> that leave and that enter the node \<open>i\<close>, in the order of their
  creation; \<open>seeded e\<close> is the incoming list the node \<open>e\<close> was created with. A node is
  \<open>linked\<close> when its outgoing list is the flows that leave it and its incoming list is
  its seed followed by the flows that enter it.
\<close>

definition elKey :: "BpmnElement \<Rightarrow> string \<times> bool" where
  "elKey e = (el_id e, el_type e = sequenceFlow)"

definition diKey :: "BpmnDiElement \<Rightarrow> string \<times> bool" where
  "diKey d = (bpmnElement d, waypoints d \<noteq> None)"

definition nodeIn :: "BpmnFactory \<Rightarrow> string \<Rightarrow> bool" where
  "nodeIn f i = ((i, False) \<in> set (map elKey (elements f)))"

definition flowsFrom :: "BpmnElement list \<Rightarrow> string \<Rightarrow> string list" where
  "flowsFrom es i =
     map el_id (filter (\<lambda>e. el_type e = sequenceFlow \<and> sourceRef e = Some i) es)"

definition flowsTo :: "BpmnElement list \<Rightarrow> string \<Rightarrow> string list" where
  "flowsTo es i =
     map el_id (filter (\<lambda>e. el_type e = sequenceFlow \<and> targetRef e = Some i) es)"

definition seeded :: "BpmnElement \<Rightarrow> string list" where
  "seeded e = (if el_type e = startEvent then [] else [''temp_incoming''])"

definition linked :: "BpmnElement list \<Rightarrow> BpmnElement \<Rightarrow> bool" where
  "linked es e \<longleftrightarrow>
     listOf (outgoing e) = flowsFrom es (el_id e) \<and>
     listOf (incoming e) = seeded e @ flowsTo es (el_id e)"

text \<open>
  The invariant of the factory during a conversion: identifiers are distinct, flows are
  the elements whose identifier starts with \<open>F\<close>, and the numbers of the identifiers
  are bounded by the counters; the diagram has one entry per element, in the same order,
  an edge for a flow and a shape for a node; every node is linked; both ends of every
  flow are nodes of the graph; the shapes are laid out from 100 on the centre line 150
  and every flow has its edge.
\<close>

definition idsOk :: "BpmnFactory \<Rightarrow> bool" where
  "idsOk f \<longleftrightarrow>
     distinct (map el_id (elements f)) \<and>
     (\<forall>e\<in>set (elements f).
        if el_type e = sequenceFlow
        then hd (el_id e) = CHR ''F'' \<and> idNumber (el_id e) \<le> flowCounter f
        else hd (el_id e) \<noteq> CHR ''F'' \<and> idNumber (el_id e) \<le> elementCounter f)"

definition shapesOk :: "BpmnFactory \<Rightarrow> bool" where
  "shapesOk f \<longleftrightarrow> map diKey (diElements f) = map elKey (elements f)"

definition linksOk :: "BpmnFactory \<Rightarrow> bool" where
  "linksOk f \<longleftrightarrow>
     (\<forall>e\<in>set (elements f). el_type e \<noteq> sequenceFlow \<longrightarrow> linked (elements f) e)"

definition endsOk :: "BpmnFactory \<Rightarrow> bool" where
  "endsOk f \<longleftrightarrow>
     (\<forall>e\<in>set (elements f). el_type e = sequenceFlow \<longrightarrow>
        (\<exists>s t. sourceRef e = Some s \<and> targetRef e = Some t \<and> nodeIn f s \<and> nodeIn f t))"

definition layoutOk :: "BpmnFactory \<Rightarrow> bool" where
  "layoutOk f \<longleftrightarrow>
     currentY f = 150 \<and> laidOut 150 100 (diElements f) (currentX f) \<and>
     (\<forall>e\<in>set (elements f). el_type e = sequenceFlow \<longrightarrow> edgeJoins (diElements f) e)"

definition wellFormed :: "BpmnFactory \<Rightarrow> bool" where
  "wellFormed f \<longleftrightarrow> idsOk f \<and> shapesOk f \<and> linksOk f \<and> endsOk f \<and> layoutOk f"

text \<open>A well-formed factory together with a frontier that is one of its nodes.\<close>

definition sound :: "BpmnFactory \<times> string \<Rightarrow> bool" where
  "sound r = (case r of (f, l) \<Rightarrow> wellFormed f \<and> nodeIn f l)"

text \<open>What \<open>createSequenceFlow\<close> does to one element when identifiers are distinct.\<close>

definition link :: "string \<Rightarrow> string \<Rightarrow> string \<Rightarrow> BpmnElement \<Rightarrow> BpmnElement" where
  "link i s t e =
     (let e1 = (if el_id e = s then pushOutgoing i e else e)
      in if el_id e1 = t then pushIncoming i e1 else e1)"

text \<open>
  What the walker creates for the triggers of an action, in a factory \<open>f\<close> and from the
  frontier given: nothing when the action has no trigger; otherwise the intermediate event,
  named after the triggers and carrying the documentation of the action, and the flow
  from the frontier to it. \<open>triggerFrontier\<close> is the frontier after that, and
  \<open>triggerEvents\<close> the number of events created.
\<close>

definition triggerElements :: "FhirAction \<Rightarrow> string \<Rightarrow> BpmnFactory \<Rightarrow> BpmnElement list" where
  "triggerElements action frontier f =
     (if nonEmpty (a_trigger action)
      then [node (nodeId ''IntermediateEvent'' f) intermediateEvent
              (''Trigger: '' @ triggerLabel (listOf (a_trigger action)))
              (Some (buildActionDocumentation action)),
            flow (flowId f) frontier (nodeId ''IntermediateEvent'' f) None None]
      else [])"

definition triggerFrontier :: "FhirAction \<Rightarrow> string \<Rightarrow> BpmnFactory \<Rightarrow> string" where
  "triggerFrontier action frontier f =
     (if nonEmpty (a_trigger action) then nodeId ''IntermediateEvent'' f else frontier)"

definition triggerEvents :: "FhirAction \<Rightarrow> nat" where
  "triggerEvents action = (if nonEmpty (a_trigger action) then 1 else 0)"








section \<open>Example documents\<close>


definition titled :: "string \<Rightarrow> FhirAction" where
  "titled t = FhirAction None (Some t) None None None None None None None None None"

definition plan :: "FhirAction list option \<Rightarrow> FhirPlanDefinition" where
  "plan actions = \<lparr> resourceType = Some ''PlanDefinition'', pd_id = None, pd_title = None,
                      pd_description = None, pd_action = actions \<rparr>"

definition patientDocument :: FhirPlanDefinition where
  "patientDocument = \<lparr> resourceType = Some ''Patient'', pd_id = None, pd_title = None,
                         pd_description = None, pd_action = None \<rparr>"

definition goTrigger :: Trigger where
  "goTrigger = \<lparr> trig_type = None, trig_name = Some ''go'' \<rparr>"

definition triggerAction :: FhirAction where
  "triggerAction =
     FhirAction None (Some ''Wait'') None None None (Some [goTrigger]) None None None None None"

definition ageCondition :: Condition where
  "ageCondition = \<lparr> kind = Some ''applicability'',
       cond_expression = Some \<lparr> language = None, expression = Some ''patient.age >= 18'' \<rparr> \<rparr>"

definition blankCondition :: Condition where
  "blankCondition = \<lparr> kind = None,
       cond_expression = Some \<lparr> language = None, expression = Some [] \<rparr> \<rparr>"

definition blankConditionAction :: FhirAction where
  "blankConditionAction =
     FhirAction None (Some ''Check'') None None None None (Some [blankCondition])
       None None None None"

definition uncodedAction :: FhirAction where
  "uncodedAction =
     FhirAction None None None None None None None None
       (Some \<lparr> coding = Some [\<lparr> c_system = Some ''http://example.org'', c_code = None,
                                c_display = None \<rparr>] \<rparr>)
       None None"

definition timerTrigger :: Trigger where
  "timerTrigger = \<lparr> trig_type = Some ''periodic'', trig_name = None \<rparr>"

definition bareTrigger :: Trigger where
  "bareTrigger = \<lparr> trig_type = None, trig_name = None \<rparr>"

definition waitAction :: FhirAction where
  "waitAction =
     FhirAction None (Some ''Wait'') None None None
       (Some [goTrigger, timerTrigger, bareTrigger]) None None None None None"

definition consentCondition :: Condition where
  "consentCondition = \<lparr> kind = Some ''applicability'',
       cond_expression = Some \<lparr> language = None, expression = Some ''patient.consent'' \<rparr> \<rparr>"

definition guardedAction :: FhirAction where
  "guardedAction =
     FhirAction None (Some ''Check Eligibility'') None None None (Some [goTrigger])
       (Some [ageCondition, consentCondition]) None None None None"

definition started :: BpmnFactory where
  "started = fst (createStartEvent newFactory)"









section \<open>Auxiliary facts\<close>

subsection \<open>Elements without their linkage lists\<close>

lemma unlinked_updateFirst_out:
  "map unlinked (updateFirst p (pushOutgoing i) es) = map unlinked es"
  by (induction es) (simp_all add: unlinked_def pushOutgoing_def)

lemma unlinked_updateFirst_in:
  "map unlinked (updateFirst p (pushIncoming i) es) = map unlinked es"
  by (induction es) (simp_all add: unlinked_def pushIncoming_def)

lemma createSequenceFlow_unlinked:
  "createSequenceFlow src tgt cond nm f = (f', i) \<Longrightarrow>
     i = flowId f \<and>
     map unlinked (elements f') = map unlinked (elements f) @
        [flow i src tgt (if truthy nm then nm else None) (if truthy cond then cond else None)] \<and>
     elementCounter f' = elementCounter f \<and> flowCounter f' = Suc (flowCounter f)"
  by (auto simp: createSequenceFlow_def generateFlowId_def Let_def flowId_def flow_def
        unlinked_updateFirst_out unlinked_updateFirst_in unlinked_def
      split: prod.splits option.splits)

lemma addNode_unlinked:
  "addNode prefix mk w h f = (f', i) \<Longrightarrow>
     i = nodeId prefix f \<and>
     map unlinked (elements f') = map unlinked (elements f) @ [unlinked (mk i)] \<and>
     elementCounter f' = Suc (elementCounter f) \<and> flowCounter f' = flowCounter f"
  by (auto simp: addNode_def generateId_def Let_def nodeId_def advanceX_def)

lemma createIntermediateEvent_unlinked:
  "createIntermediateEvent nm inc doc f = (f', i) \<Longrightarrow>
     i = nodeId ''IntermediateEvent'' f \<and>
     map unlinked (elements f') =
       map unlinked (elements f) @ [node i intermediateEvent nm doc] \<and>
     elementCounter f' = Suc (elementCounter f) \<and> flowCounter f' = flowCounter f"
  unfolding createIntermediateEvent_def
  by (drule addNode_unlinked) (simp add: unlinked_def node_def)

lemma createTask_unlinked:
  "createTask nm inc doc f = (f', i) \<Longrightarrow>
     i = nodeId ''Task'' f \<and>
     map unlinked (elements f') = map unlinked (elements f) @ [node i task nm doc] \<and>
     elementCounter f' = Suc (elementCounter f) \<and> flowCounter f' = flowCounter f"
  unfolding createTask_def
  by (drule addNode_unlinked) (simp add: unlinked_def node_def)

lemma createExclusiveGateway_unlinked:
  "createExclusiveGateway nm inc f = (f', i) \<Longrightarrow>
     i = nodeId ''Gateway'' f \<and>
     map unlinked (elements f') =
       map unlinked (elements f) @ [node i exclusiveGateway nm None] \<and>
     elementCounter f' = Suc (elementCounter f) \<and> flowCounter f' = flowCounter f"
  unfolding createExclusiveGateway_def
  by (drule addNode_unlinked) (simp add: unlinked_def node_def)

subsection \<open>The chain of replacements\<close>








subsection \<open>Placement of a shape\<close>

lemma addNode_placed: "even h \<Longrightarrow> placed f w h (addNode prefix mk w h f)"
  by (auto simp: placed_def addNode_def generateId_def Let_def advanceX_def getCenterY_def
        shape_def)


subsection \<open>Evaluation on a factory given by its fields\<close>

text \<open>The constructors and \<open>createSequenceFlow\<close> on a factory given by its fields.\<close>

lemma addNode_exec:
  "addNode prefix mk w h \<lparr> elements = es, diElements = ds, elementCounter = n, flowCounter = m,
       currentX = x, currentY = y \<rparr> =
     (\<lparr> elements = es @ [mk (prefix @ ''_'' @ showNat (Suc n))],
        diElements = ds @ [shape (prefix @ ''_'' @ showNat (Suc n)) x (y - h div 2) w h],
        elementCounter = Suc n, flowCounter = m,
        currentX = x + (w + 180), currentY = y \<rparr>, prefix @ ''_'' @ showNat (Suc n))"
  by (simp add: addNode_def generateId_def Let_def advanceX_def getCenterY_def shape_def
        HORIZONTAL_SPACING_def)

lemma createSequenceFlow_exec:
  "createSequenceFlow src tgt cond nm \<lparr> elements = es, diElements = ds, elementCounter = n,
       flowCounter = m, currentX = x, currentY = y \<rparr> =
     (\<lparr> elements =
          updateFirst (\<lambda>e. el_id e = tgt) (pushIncoming (''Flow_'' @ showNat (Suc m)))
            (updateFirst (\<lambda>e. el_id e = src) (pushOutgoing (''Flow_'' @ showNat (Suc m)))
               (es @ [flow (''Flow_'' @ showNat (Suc m)) src tgt
                        (if truthy nm then nm else None) (if truthy cond then cond else None)])),
        diElements =
          (case (find (\<lambda>d. bpmnElement d = src) ds, find (\<lambda>d. bpmnElement d = tgt) ds) of
             (Some s, Some t) \<Rightarrow>
               ds @ [edge (''Flow_'' @ showNat (Suc m)) (rightMiddle s) (leftMiddle t)]
           | _ \<Rightarrow> ds),
        elementCounter = n, flowCounter = Suc m, currentX = x, currentY = y \<rparr>,
      ''Flow_'' @ showNat (Suc m))"
  by (simp add: createSequenceFlow_def generateFlowId_def Let_def flow_def edgeFor_def edge_def
        rightMiddle_def leftMiddle_def split: option.split)

lemmas exec = buildGraph_def graphWith_def newFactory_def plan_def
  createStartEvent_def createEndEvent_def createTask_def createExclusiveGateway_def
  createIntermediateEvent_def addNode_exec createSequenceFlow_exec
  triggerStep_def taskStep_def actionName_def nonEmpty_def listOf_def
  showNat.simps pushOutgoing_def pushIncoming_def truthy_def orDefault_def
  EVENT_SIZE_def TASK_WIDTH_def TASK_HEIGHT_def GATEWAY_SIZE_def
  flow_def shape_def edge_def rightMiddle_def leftMiddle_def orZero_def Let_def

lemmas doc_exec = buildActionDocumentation_def docParts_def descriptionPart_def textPart_def
  typePart_def triggersPart_def conditionLine_def dynamicValueLine_def documentationLine_def
  typeCoding_def strOf_def langSuffix_def exprLanguage_def exprText_def newline_def
  filterBoolean_def orElse_def enumerate_eq_zip


subsection \<open>The skeleton of the document\<close>




















subsection \<open>Numbers in identifiers\<close>

lemma digit_cases: "d < 10 \<Longrightarrow> d = 0 \<or> d = 1 \<or> d = 2 \<or> d = 3 \<or> d = 4 \<or> d = 5 \<or> d = 6 \<or> d = 7 \<or> d = 8 \<or> d = (9::nat)"
  by arith

lemma digitValue_digit: "d < 10 \<Longrightarrow> digitValue (''0123456789'' ! d) = d"
  using digit_cases [of d] by (auto simp: digitValue_def)

lemma digit_not_underscore: "d < 10 \<Longrightarrow> ''0123456789'' ! d \<noteq> CHR ''_''"
  using digit_cases [of d] by auto

lemma readNat_snoc: "readNat (s @ [c]) = 10 * readNat s + digitValue c"
  by (simp add: readNat_def)

lemma readNat_showNat: "readNat (showNat n) = n"
proof (induction n rule: showNat.induct)
  case (1 n)
  show ?case
  proof (cases "n < 10")
    case True
    then show ?thesis
      by (subst showNat.simps) (simp add: readNat_def digitValue_digit)
  next
    case False
    with 1 have "readNat (showNat (n div 10)) = n div 10" by simp
    with False show ?thesis
      by (subst showNat.simps) (simp add: readNat_snoc digitValue_digit)
  qed
qed

lemma showNat_no_underscore: "CHR ''_'' \<notin> set (showNat n)"
proof (induction n rule: showNat.induct)
  case (1 n)
  show ?case
  proof (cases "n < 10")
    case True
    then show ?thesis
      using digit_not_underscore [of n] by (subst showNat.simps) auto
  next
    case False
    with 1 have "CHR ''_'' \<notin> set (showNat (n div 10))" by simp
    with False show ?thesis
      using digit_not_underscore [of "n mod 10"] by (subst showNat.simps) auto
  qed
qed

lemma idNumber_id: "idNumber (p @ CHR ''_'' # showNat n) = n"
proof -
  have "takeWhile (\<lambda>c. c \<noteq> CHR ''_'') (rev (showNat n) @ CHR ''_'' # rev p) = rev (showNat n)"
    using showNat_no_underscore [of n] by (subst takeWhile_append2) auto
  then show ?thesis
    by (simp add: idNumber_def readNat_showNat)
qed

subsection \<open>Linking when identifiers are distinct\<close>

lemma map_unchanged: "\<forall>e\<in>set xs. k e \<noteq> a \<Longrightarrow> map (\<lambda>e. if k e = a then g e else e) xs = xs"
  by (induction xs) auto

lemma updateFirst_distinct:
  "distinct (map k xs) \<Longrightarrow>
     updateFirst (\<lambda>e. k e = a) g xs = map (\<lambda>e. if k e = a then g e else e) xs"
proof (induction xs)
  case Nil
  show ?case by simp
next
  case (Cons x xs)
  show ?case
  proof (cases "k x = a")
    case True
    with Cons.prems have "\<forall>e\<in>set xs. k e \<noteq> a" by (auto simp: image_iff)
    with True show ?thesis by (simp add: map_unchanged)
  next
    case False
    with Cons show ?thesis by simp
  qed
qed

lemma el_id_pushOutgoing: "el_id (pushOutgoing i e) = el_id e"
  by (simp add: pushOutgoing_def)

lemma links_as_map:
  assumes "distinct (map el_id es)"
  shows "updateFirst (\<lambda>e. el_id e = t) (pushIncoming i)
           (updateFirst (\<lambda>e. el_id e = s) (pushOutgoing i) es) = map (link i s t) es"
proof -
  let ?out = "\<lambda>e. if el_id e = s then pushOutgoing i e else e"
  have first: "updateFirst (\<lambda>e. el_id e = s) (pushOutgoing i) es = map ?out es"
    using assms by (rule updateFirst_distinct)
  have "el_id (?out e) = el_id e" for e
    by (simp add: el_id_pushOutgoing)
  then have "map el_id (map ?out es) = map el_id es"
    by (induction es) simp_all
  with assms have "distinct (map el_id (map ?out es))" by (simp only:)
  then have "updateFirst (\<lambda>e. el_id e = t) (pushIncoming i) (map ?out es) =
      map (\<lambda>e. if el_id e = t then pushIncoming i e else e) (map ?out es)"
    by (rule updateFirst_distinct)
  with first show ?thesis
    by (simp add: link_def Let_def comp_def)
qed

lemma link_fields:
  "el_id (link i s t e) = el_id e" "el_type (link i s t e) = el_type e"
  "sourceRef (link i s t e) = sourceRef e" "targetRef (link i s t e) = targetRef e"
  "elKey (link i s t e) = elKey e"
  "listOf (outgoing (link i s t e)) = listOf (outgoing e) @ (if el_id e = s then [i] else [])"
  "listOf (incoming (link i s t e)) = listOf (incoming e) @ (if el_id e = t then [i] else [])"
  by (simp_all add: link_def Let_def pushOutgoing_def pushIncoming_def elKey_def listOf_def
        split: option.split)

subsection \<open>The fields of the factory after an operation\<close>

lemma addNode_fields:
  "snd (addNode prefix mk w h f) = nodeId prefix f"
  "elements (fst (addNode prefix mk w h f)) = elements f @ [mk (nodeId prefix f)]"
  "diElements (fst (addNode prefix mk w h f)) =
     diElements f @ [shape (nodeId prefix f) (currentX f) (currentY f - h div 2) w h]"
  "elementCounter (fst (addNode prefix mk w h f)) = Suc (elementCounter f)"
  "flowCounter (fst (addNode prefix mk w h f)) = flowCounter f"
  "currentX (fst (addNode prefix mk w h f)) = currentX f + (w + HORIZONTAL_SPACING)"
  "currentY (fst (addNode prefix mk w h f)) = currentY f"
  by (simp_all add: addNode_def generateId_def Let_def advanceX_def getCenterY_def shape_def
        nodeId_def)

lemma createSequenceFlow_fields:
  "snd (createSequenceFlow s t c n f) = flowId f"
  "elements (fst (createSequenceFlow s t c n f)) =
     updateFirst (\<lambda>e. el_id e = t) (pushIncoming (flowId f))
       (updateFirst (\<lambda>e. el_id e = s) (pushOutgoing (flowId f))
          (elements f @ [flow (flowId f) s t (if truthy n then n else None)
                           (if truthy c then c else None)]))"
  "diElements (fst (createSequenceFlow s t c n f)) =
     (case (find (\<lambda>d. bpmnElement d = s) (diElements f),
            find (\<lambda>d. bpmnElement d = t) (diElements f)) of
        (Some ss, Some ts) \<Rightarrow>
          diElements f @ [edge (flowId f) (rightMiddle ss) (leftMiddle ts)]
      | _ \<Rightarrow> diElements f)"
  "elementCounter (fst (createSequenceFlow s t c n f)) = elementCounter f"
  "flowCounter (fst (createSequenceFlow s t c n f)) = Suc (flowCounter f)"
  "currentX (fst (createSequenceFlow s t c n f)) = currentX f"
  "currentY (fst (createSequenceFlow s t c n f)) = currentY f"
  by (simp_all add: createSequenceFlow_def generateFlowId_def Let_def flowId_def flow_def
        edgeFor_def edge_def rightMiddle_def leftMiddle_def split: option.split)

subsection \<open>New identifiers are new\<close>

lemma flowId_facts: "hd (flowId f) = CHR ''F''" "idNumber (flowId f) = Suc (flowCounter f)"
proof -
  show "hd (flowId f) = CHR ''F''" by (simp add: flowId_def)
  have "idNumber (''Flow'' @ CHR ''_'' # showNat (Suc (flowCounter f))) = Suc (flowCounter f)"
    by (rule idNumber_id)
  then show "idNumber (flowId f) = Suc (flowCounter f)"
    by (simp add: flowId_def idNumber_id)
qed

lemma nodeId_facts:
  "prefix \<noteq> [] \<Longrightarrow> hd (nodeId prefix f) = hd prefix"
  "idNumber (nodeId prefix f) = Suc (elementCounter f)"
  by (simp_all add: nodeId_def idNumber_id)

lemma fresh_flow_id: "idsOk f \<Longrightarrow> flowId f \<notin> set (map el_id (elements f))"
proof
  assume ok: "idsOk f" and "flowId f \<in> set (map el_id (elements f))"
  then obtain e where e: "e \<in> set (elements f)" "el_id e = flowId f" by auto
  show False
  proof (cases "el_type e = sequenceFlow")
    case True
    with ok e(1) have "idNumber (el_id e) \<le> flowCounter f"
      unfolding idsOk_def by (auto split: if_splits)
    with e(2) show False by (simp add: flowId_facts)
  next
    case False
    with ok e(1) have "hd (el_id e) \<noteq> CHR ''F''"
      unfolding idsOk_def by (auto split: if_splits)
    with e(2) show False by (simp add: flowId_facts)
  qed
qed

lemma fresh_node_id:
  assumes "idsOk f" and "prefix \<noteq> []" and "hd prefix \<noteq> CHR ''F''"
  shows "nodeId prefix f \<notin> set (map el_id (elements f))"
proof
  assume "nodeId prefix f \<in> set (map el_id (elements f))"
  then obtain e where e: "e \<in> set (elements f)" "el_id e = nodeId prefix f" by auto
  show False
  proof (cases "el_type e = sequenceFlow")
    case True
    with assms(1) e(1) have "hd (el_id e) = CHR ''F''"
      unfolding idsOk_def by (auto split: if_splits)
    with e(2) assms(2,3) show False by (simp add: nodeId_facts)
  next
    case False
    with assms(1) e(1) have "idNumber (el_id e) \<le> elementCounter f"
      unfolding idsOk_def by (auto split: if_splits)
    with e(2) show False by (simp add: nodeId_facts)
  qed
qed

lemma nodeIn_id: "nodeIn f i \<Longrightarrow> i \<in> set (map el_id (elements f))"
  by (auto simp: nodeIn_def elKey_def)

subsection \<open>Flows, edges and shapes under the operations\<close>

lemma flowsFrom_append: "flowsFrom (es @ es') j = flowsFrom es j @ flowsFrom es' j"
  by (simp add: flowsFrom_def)

lemma flowsTo_append: "flowsTo (es @ es') j = flowsTo es j @ flowsTo es' j"
  by (simp add: flowsTo_def)

lemma flowsFrom_link: "flowsFrom (map (link i s t) es) j = flowsFrom es j"
  by (induction es) (simp_all add: flowsFrom_def link_fields)

lemma flowsTo_link: "flowsTo (map (link i s t) es) j = flowsTo es j"
  by (induction es) (simp_all add: flowsTo_def link_fields)

lemma seeded_link: "seeded (link i s t e) = seeded e"
  by (simp add: seeded_def link_fields)

lemma edgeJoins_iff:
  "edgeJoins ds e \<longleftrightarrow>
     (\<exists>s t ss ts. sourceRef e = Some s \<and> targetRef e = Some t \<and>
        find (\<lambda>d. bpmnElement d = s) ds = Some ss \<and>
        find (\<lambda>d. bpmnElement d = t) ds = Some ts \<and>
        waypoints ss = None \<and> waypoints ts = None \<and>
        edge (el_id e) (rightMiddle ss) (leftMiddle ts) \<in> set ds)"
  by (simp add: edgeJoins_def split: option.split)

lemma edgeJoins_link: "edgeJoins ds (link i s t e) = edgeJoins ds e"
  by (simp add: edgeJoins_iff link_fields)

lemma find_append_Some: "find p xs = Some x \<Longrightarrow> find p (xs @ ys) = Some x"
  by (induction xs) (auto split: if_splits)

lemma edgeJoins_append: "edgeJoins ds e \<Longrightarrow> edgeJoins (ds @ ds') e"
  unfolding edgeJoins_iff by (fastforce simp: find_append_Some)

lemma orZero_Some: "orZero (Some v) = v"
  by (simp add: orZero_def)

lemma laidOut_shape:
  "laidOut cy x ds c \<Longrightarrow> 2 * y + h = 2 * cy \<Longrightarrow>
     laidOut cy x (ds @ [shape i c y w h]) (c + (w + HORIZONTAL_SPACING))"
proof (induction cy x ds c rule: laidOut.induct)
  case (1 cy x c)
  then show ?case by (simp add: shape_def orZero_Some)
next
  case (2 cy x d ds c)
  then show ?case by (cases "waypoints d") simp_all
qed

lemma laidOut_edge: "laidOut cy x ds c \<Longrightarrow> laidOut cy x (ds @ [edge i p q]) c"
proof (induction cy x ds c rule: laidOut.induct)
  case (1 cy x c)
  then show ?case by (simp add: edge_def)
next
  case (2 cy x d ds c)
  then show ?case by (cases "waypoints d") simp_all
qed

text \<open>The shape of a node is found, and it is a shape.\<close>

lemma find_key:
  "distinct (map fst (map k xs)) \<Longrightarrow> (a, b) \<in> set (map k xs) \<Longrightarrow>
     \<exists>x. find (\<lambda>x. fst (k x) = a) xs = Some x \<and> k x = (a, b)"
proof (induction xs)
  case Nil
  then show ?case by simp
next
  case (Cons x xs)
  show ?case
  proof (cases "fst (k x) = a")
    case True
    have "(a, b) \<notin> set (map k xs)"
    proof
      assume "(a, b) \<in> set (map k xs)"
      then have "fst (a, b) \<in> fst ` set (map k xs)" by (rule imageI)
      then have "a \<in> set (map fst (map k xs))" by (simp add: image_image)
      with Cons.prems(1) True show False by simp
    qed
    with Cons.prems(2) have "k x = (a, b)" by simp
    with True show ?thesis by simp
  next
    case False
    then have "k x \<noteq> (a, b)" by auto
    with Cons.prems have "distinct (map fst (map k xs))" and "(a, b) \<in> set (map k xs)"
      by simp_all
    with Cons.IH False show ?thesis by simp
  qed
qed

lemma node_shape:
  assumes "idsOk f" and "shapesOk f" and "nodeIn f i"
  shows "\<exists>d. find (\<lambda>d. bpmnElement d = i) (diElements f) = Some d \<and> waypoints d = None"
proof -
  have keys: "map fst (map diKey (diElements f)) = map el_id (elements f)"
    using assms(2) by (simp add: shapesOk_def elKey_def comp_def)
  with assms(1) have "distinct (map fst (map diKey (diElements f)))"
    by (simp add: idsOk_def)
  moreover from assms(2,3) have "(i, False) \<in> set (map diKey (diElements f))"
    by (simp add: shapesOk_def nodeIn_def)
  ultimately have "\<exists>d. find (\<lambda>d. fst (diKey d) = i) (diElements f) = Some d \<and>
      diKey d = (i, False)"
    by (rule find_key)
  then obtain d where "find (\<lambda>d. fst (diKey d) = i) (diElements f) = Some d"
      and "diKey d = (i, False)"
    by (elim exE conjE)
  then show ?thesis
    by (auto simp: diKey_def)
qed

subsection \<open>The invariant is kept by \<open>createSequenceFlow\<close>\<close>

lemma nodeIn_mono:
  "map elKey (elements f') = map elKey (elements f) @ ks \<Longrightarrow> nodeIn f l \<Longrightarrow> nodeIn f' l"
  by (simp add: nodeIn_def)

lemma flowsFrom_flow: "flowsFrom [flow i s t nm c] j = (if s = j then [i] else [])"
  by (simp add: flowsFrom_def flow_def)

lemma flowsTo_flow: "flowsTo [flow i s t nm c] j = (if t = j then [i] else [])"
  by (simp add: flowsTo_def flow_def)

lemma createSequenceFlow_wellFormed:
  assumes wf: "wellFormed f" and s: "nodeIn f s" and t: "nodeIn f t"
  shows "wellFormed (fst (createSequenceFlow s t c n f))"
    and "map elKey (elements (fst (createSequenceFlow s t c n f))) =
           map elKey (elements f) @ [(flowId f, True)]"
proof -
  let ?f' = "fst (createSequenceFlow s t c n f)"
  let ?i = "flowId f"
  let ?fl = "flow ?i s t (if truthy n then n else None) (if truthy c then c else None)"
  let ?es = "elements f @ [?fl]"
  from wf have ids: "idsOk f" and shapes: "shapesOk f" and links: "linksOk f"
    and ends: "endsOk f" and layout: "layoutOk f"
    by (simp_all add: wellFormed_def)
  have fresh: "?i \<notin> set (map el_id (elements f))"
    using ids by (rule fresh_flow_id)
  have fl: "el_id ?fl = ?i" "el_type ?fl = sequenceFlow" "sourceRef ?fl = Some s"
    "targetRef ?fl = Some t"
    by (simp_all add: flow_def)
  have dist: "distinct (map el_id ?es)"
    using ids fresh by (simp add: idsOk_def fl)
  have els: "elements ?f' = map (link ?i s t) ?es"
    unfolding createSequenceFlow_fields using dist by (rule links_as_map)
  obtain ss where ss: "find (\<lambda>d. bpmnElement d = s) (diElements f) = Some ss"
      "waypoints ss = None"
    using node_shape [OF ids shapes s] by auto
  obtain ts where ts: "find (\<lambda>d. bpmnElement d = t) (diElements f) = Some ts"
      "waypoints ts = None"
    using node_shape [OF ids shapes t] by auto
  let ?ed = "edge ?i (rightMiddle ss) (leftMiddle ts)"
  have dis: "diElements ?f' = diElements f @ [?ed]"
    by (simp add: createSequenceFlow_fields ss ts)
  have keys: "map elKey (elements ?f') = map elKey (elements f) @ [(?i, True)]"
    by (simp add: els link_fields comp_def elKey_def fl)
  show "map elKey (elements ?f') = map elKey (elements f) @ [(?i, True)]"
    by (rule keys)
  have mono: "nodeIn f l \<Longrightarrow> nodeIn ?f' l" for l
    using keys by (rule nodeIn_mono)
  have members: "e' \<in> set (elements ?f') \<Longrightarrow>
      \<exists>e. e' = link ?i s t e \<and> (e \<in> set (elements f) \<or> e = ?fl)" for e'
    unfolding els by auto
  have ids': "idsOk ?f'"
  proof -
    have "map el_id (elements ?f') = map el_id ?es"
      by (simp add: els link_fields comp_def)
    with dist have d: "distinct (map el_id (elements ?f'))" by simp
    have "if el_type e' = sequenceFlow
          then hd (el_id e') = CHR ''F'' \<and> idNumber (el_id e') \<le> flowCounter ?f'
          else hd (el_id e') \<noteq> CHR ''F'' \<and> idNumber (el_id e') \<le> elementCounter ?f'"
      if "e' \<in> set (elements ?f')" for e'
    proof -
      from members [OF that] obtain e where e: "e' = link ?i s t e"
          "e \<in> set (elements f) \<or> e = ?fl" by auto
      from e(2) show ?thesis
      proof
        assume "e \<in> set (elements f)"
        with ids have "if el_type e = sequenceFlow
          then hd (el_id e) = CHR ''F'' \<and> idNumber (el_id e) \<le> flowCounter f
          else hd (el_id e) \<noteq> CHR ''F'' \<and> idNumber (el_id e) \<le> elementCounter f"
          by (simp add: idsOk_def)
        then show ?thesis
          by (simp add: e(1) link_fields createSequenceFlow_fields split: if_splits)
      next
        assume "e = ?fl"
        then show ?thesis
          by (simp add: e(1) link_fields createSequenceFlow_fields fl flowId_facts)
      qed
    qed
    with d show ?thesis by (simp add: idsOk_def)
  qed
  have shapes': "shapesOk ?f'"
    using shapes by (simp add: shapesOk_def keys dis diKey_def edge_def)
  have links': "linksOk ?f'"
    unfolding linksOk_def
  proof (intro ballI impI)
    fix e' assume e': "e' \<in> set (elements ?f')" and node: "el_type e' \<noteq> sequenceFlow"
    from members [OF e'] obtain e where e: "e' = link ?i s t e"
        "e \<in> set (elements f) \<or> e = ?fl" by auto
    from node e have mem: "e \<in> set (elements f)" and ty: "el_type e \<noteq> sequenceFlow"
      by (auto simp: link_fields fl)
    with links have old: "linked (elements f) e" by (simp add: linksOk_def)
    have out: "flowsFrom (elements ?f') (el_id e') =
        flowsFrom (elements f) (el_id e) @ (if el_id e = s then [?i] else [])"
      unfolding els e(1) flowsFrom_link flowsFrom_append link_fields
      by (simp add: flowsFrom_flow eq_commute)
    have inc: "flowsTo (elements ?f') (el_id e') =
        flowsTo (elements f) (el_id e) @ (if el_id e = t then [?i] else [])"
      unfolding els e(1) flowsTo_link flowsTo_append link_fields
      by (simp add: flowsTo_flow eq_commute)
    from old show "linked (elements ?f') e'"
      unfolding linked_def out inc
      by (simp add: e(1) link_fields seeded_link)
  qed
  have ends': "endsOk ?f'"
    unfolding endsOk_def
  proof (intro ballI impI)
    fix e' assume e': "e' \<in> set (elements ?f')" and isflow: "el_type e' = sequenceFlow"
    from members [OF e'] obtain e where e: "e' = link ?i s t e"
        "e \<in> set (elements f) \<or> e = ?fl" by auto
    from e(2) show "\<exists>s t. sourceRef e' = Some s \<and> targetRef e' = Some t \<and>
        nodeIn ?f' s \<and> nodeIn ?f' t"
    proof
      assume "e \<in> set (elements f)"
      with ends isflow e(1) obtain a b where "sourceRef e = Some a" "targetRef e = Some b"
          "nodeIn f a" "nodeIn f b"
        by (auto simp: endsOk_def link_fields)
      then show ?thesis
        using mono by (auto simp: e(1) link_fields)
    next
      assume "e = ?fl"
      then show ?thesis
        using mono s t by (auto simp: e(1) link_fields fl)
    qed
  qed
  have layout': "layoutOk ?f'"
  proof -
    from layout have cy: "currentY f = 150" and lo: "laidOut 150 100 (diElements f) (currentX f)"
      and ej: "\<forall>e\<in>set (elements f). el_type e = sequenceFlow \<longrightarrow> edgeJoins (diElements f) e"
      by (simp_all add: layoutOk_def)
    have lo': "laidOut 150 100 (diElements ?f') (currentX ?f')"
      unfolding dis using lo by (simp add: createSequenceFlow_fields laidOut_edge)
    have new: "edgeJoins (diElements ?f') ?fl"
      unfolding dis edgeJoins_iff
      using ss ts by (auto simp: fl find_append_Some)
    have "edgeJoins (diElements ?f') e'"
      if "e' \<in> set (elements ?f')" "el_type e' = sequenceFlow" for e'
    proof -
      from members [OF that(1)] obtain e where e: "e' = link ?i s t e"
          "e \<in> set (elements f) \<or> e = ?fl" by auto
      from e(2) show ?thesis
      proof
        assume "e \<in> set (elements f)"
        with ej that(2) e(1) have "edgeJoins (diElements f) e"
          by (simp add: link_fields)
        then show ?thesis
          unfolding dis e(1) edgeJoins_link by (rule edgeJoins_append)
      next
        assume "e = ?fl"
        with new show ?thesis by (simp add: e(1) edgeJoins_link)
      qed
    qed
    with cy lo' show ?thesis
      by (simp add: layoutOk_def createSequenceFlow_fields)
  qed
  from ids' shapes' links' ends' layout' show "wellFormed ?f'"
    by (simp add: wellFormed_def)
qed

subsection \<open>The invariant is kept by the constructors\<close>

lemma addNode_wellFormed:
  assumes wf: "wellFormed f"
    and prefix: "prefix \<noteq> []" "hd prefix \<noteq> CHR ''F''"
    and h: "even h"
    and mk: "\<And>i. el_id (mk i) = i" "\<And>i. el_type (mk i) \<noteq> sequenceFlow"
      "\<And>i. listOf (outgoing (mk i)) = []" "\<And>i. listOf (incoming (mk i)) = seeded (mk i)"
  shows "wellFormed (fst (addNode prefix mk w h f))"
    and "map elKey (elements (fst (addNode prefix mk w h f))) =
           map elKey (elements f) @ [(snd (addNode prefix mk w h f), False)]"
proof -
  let ?f' = "fst (addNode prefix mk w h f)"
  let ?i = "nodeId prefix f"
  from wf have ids: "idsOk f" and shapes: "shapesOk f" and links: "linksOk f"
    and ends: "endsOk f" and layout: "layoutOk f"
    by (simp_all add: wellFormed_def)
  have fresh: "?i \<notin> set (map el_id (elements f))"
    using ids prefix by (rule fresh_node_id)
  have els: "elements ?f' = elements f @ [mk ?i]"
    and dis: "diElements ?f' =
        diElements f @ [shape ?i (currentX f) (currentY f - h div 2) w h]"
    by (simp_all add: addNode_fields)
  have keys: "map elKey (elements ?f') = map elKey (elements f) @ [(?i, False)]"
    by (simp add: els elKey_def mk)
  then show "map elKey (elements ?f') =
      map elKey (elements f) @ [(snd (addNode prefix mk w h f), False)]"
    by (simp add: addNode_fields)
  have mono: "nodeIn f l \<Longrightarrow> nodeIn ?f' l" for l
    using keys by (rule nodeIn_mono)
  have ids': "idsOk ?f'"
  proof -
    from ids fresh have d: "distinct (map el_id (elements ?f'))"
      by (simp add: idsOk_def els mk)
    have "if el_type e = sequenceFlow
          then hd (el_id e) = CHR ''F'' \<and> idNumber (el_id e) \<le> flowCounter ?f'
          else hd (el_id e) \<noteq> CHR ''F'' \<and> idNumber (el_id e) \<le> elementCounter ?f'"
      if "e \<in> set (elements ?f')" for e
    proof -
      from that have "e \<in> set (elements f) \<or> e = mk ?i"
        by (auto simp: els)
      then show ?thesis
      proof
        assume "e \<in> set (elements f)"
        with ids have "if el_type e = sequenceFlow
          then hd (el_id e) = CHR ''F'' \<and> idNumber (el_id e) \<le> flowCounter f
          else hd (el_id e) \<noteq> CHR ''F'' \<and> idNumber (el_id e) \<le> elementCounter f"
          by (simp add: idsOk_def)
        then show ?thesis
          by (simp add: addNode_fields split: if_splits)
      next
        assume "e = mk ?i"
        then show ?thesis
          using prefix by (simp add: mk addNode_fields nodeId_facts)
      qed
    qed
    with d show ?thesis by (simp add: idsOk_def)
  qed
  have shapes': "shapesOk ?f'"
    using shapes by (simp add: shapesOk_def keys dis diKey_def shape_def)
  have noFrom: "flowsFrom (elements f) ?i = []" and noTo: "flowsTo (elements f) ?i = []"
  proof -
    have "\<not> (el_type e = sequenceFlow \<and> (sourceRef e = Some ?i \<or> targetRef e = Some ?i))"
      if "e \<in> set (elements f)" for e
    proof
      assume a: "el_type e = sequenceFlow \<and> (sourceRef e = Some ?i \<or> targetRef e = Some ?i)"
      with ends that obtain a b where "sourceRef e = Some a" "targetRef e = Some b"
          "nodeIn f a" "nodeIn f b"
        by (auto simp: endsOk_def)
      with a have "nodeIn f ?i" by auto
      then have "?i \<in> set (map el_id (elements f))" by (rule nodeIn_id)
      with fresh show False by contradiction
    qed
    then show "flowsFrom (elements f) ?i = []" and "flowsTo (elements f) ?i = []"
      by (auto simp: flowsFrom_def flowsTo_def filter_empty_conv)
  qed
  have node_filter: "flowsFrom (elements ?f') j = flowsFrom (elements f) j"
      "flowsTo (elements ?f') j = flowsTo (elements f) j" for j
    by (simp_all add: els flowsFrom_def flowsTo_def mk)
  have links': "linksOk ?f'"
    unfolding linksOk_def
  proof (intro ballI impI)
    fix e assume e: "e \<in> set (elements ?f')" and "el_type e \<noteq> sequenceFlow"
    then have "(e \<in> set (elements f) \<and> el_type e \<noteq> sequenceFlow) \<or> e = mk ?i"
      by (auto simp: els)
    then show "linked (elements ?f') e"
    proof
      assume "e \<in> set (elements f) \<and> el_type e \<noteq> sequenceFlow"
      with links have "linked (elements f) e" by (simp add: linksOk_def)
      then show ?thesis by (simp add: linked_def node_filter)
    next
      assume "e = mk ?i"
      then show ?thesis
        by (simp add: linked_def node_filter mk noFrom noTo)
    qed
  qed
  have ends': "endsOk ?f'"
    unfolding endsOk_def
  proof (intro ballI impI)
    fix e assume "e \<in> set (elements ?f')" and isflow: "el_type e = sequenceFlow"
    then have "e \<in> set (elements f)"
      by (auto simp: els mk)
    with ends isflow obtain a b where "sourceRef e = Some a" "targetRef e = Some b"
        "nodeIn f a" "nodeIn f b"
      by (auto simp: endsOk_def)
    then show "\<exists>s t. sourceRef e = Some s \<and> targetRef e = Some t \<and>
        nodeIn ?f' s \<and> nodeIn ?f' t"
      using mono by auto
  qed
  have layout': "layoutOk ?f'"
  proof -
    from layout have cy: "currentY f = 150" and lo: "laidOut 150 100 (diElements f) (currentX f)"
      and ej: "\<forall>e\<in>set (elements f). el_type e = sequenceFlow \<longrightarrow> edgeJoins (diElements f) e"
      by (simp_all add: layoutOk_def)
    from h cy have centred: "2 * (currentY f - h div 2) + h = 2 * 150"
      by auto
    have lo': "laidOut 150 100 (diElements ?f') (currentX ?f')"
      unfolding dis addNode_fields using lo centred by (rule laidOut_shape)
    have "edgeJoins (diElements ?f') e"
      if "e \<in> set (elements ?f')" "el_type e = sequenceFlow" for e
    proof -
      from that have "e \<in> set (elements f)"
        by (auto simp: els mk)
      with ej that(2) have "edgeJoins (diElements f) e" by simp
      then show ?thesis
        unfolding dis by (rule edgeJoins_append)
    qed
    with cy lo' show ?thesis
      by (simp add: layoutOk_def addNode_fields)
  qed
  from ids' shapes' links' ends' layout' show "wellFormed ?f'"
    by (simp add: wellFormed_def)
qed

subsection \<open>The invariant is kept by the walker\<close>

lemma processActions_Cons:
  assumes "processActions stack i (action # rest) l f = Inr r"
  obtains stack' f1 l1 f2 l2 f3 l3 where
    "stack = Suc stack'"
    "triggerStep action (buildActionDocumentation action) l f = (f1, l1)"
    "taskStep action (actionName i action) (buildActionDocumentation action) l1 f1 = (f2, l2)"
    "(if nonEmpty (a_action action)
      then processActions stack' 0 (listOf (a_action action)) l2 f2 else Inr (f2, l2)) =
       Inr (f3, l3)"
    "processActions stack (Suc i) rest l3 f3 = Inr r"
proof (cases stack)
  case 0
  with assms show ?thesis by simp
next
  case (Suc stack')
  let ?d = "buildActionDocumentation action"
  obtain f1 l1 where r1: "triggerStep action ?d l f = (f1, l1)"
    by (cases "triggerStep action ?d l f")
  obtain f2 l2 where r2: "taskStep action (actionName i action) ?d l1 f1 = (f2, l2)"
    by (cases "taskStep action (actionName i action) ?d l1 f1")
  let ?r3 = "if nonEmpty (a_action action)
             then processActions stack' 0 (listOf (a_action action)) l2 f2 else Inr (f2, l2)"
  from assms Suc r1 r2 obtain f3 l3 where r3: "?r3 = Inr (f3, l3)"
    and r4: "processActions stack (Suc i) rest l3 f3 = Inr r"
    by (cases ?r3) (auto simp: Let_def split: if_splits)
  from Suc r1 r2 r3 r4 show ?thesis by (rule that)
qed

lemma processActions_invariant:
  assumes trig: "\<And>action d l f. I (f, l) \<Longrightarrow> I (triggerStep action d l f)"
    and task: "\<And>action n d l f. I (f, l) \<Longrightarrow> I (taskStep action n d l f)"
  shows "I (f, l) \<Longrightarrow> processActions stack i actions l f = Inr r \<Longrightarrow> I r"
proof (induction stack i actions l f arbitrary: r rule: processActions.induct)
  case (1 i actions l f)
  then show ?case by simp
next
  case (2 stack i l f)
  then show ?case by simp
next
  case (3 stack i action rest l f)
  from "3.prems"(2) obtain stack' f1 l1 f2 l2 f3 l3 where
    st: "Suc stack = Suc stack'"
    and r1: "triggerStep action (buildActionDocumentation action) l f = (f1, l1)"
    and r2: "taskStep action (actionName i action) (buildActionDocumentation action) l1 f1 = (f2, l2)"
    and r3: "(if nonEmpty (a_action action)
      then processActions stack' 0 (listOf (a_action action)) l2 f2 else Inr (f2, l2)) =
       Inr (f3, l3)"
    and r4: "processActions (Suc stack) (Suc i) rest l3 f3 = Inr r"
    by (rule processActions_Cons)
  from st have st': "stack' = stack" by simp
  from trig [OF "3.prems"(1), of action "buildActionDocumentation action"] r1
  have i1: "I (f1, l1)" by simp
  from task [OF i1, of action "actionName i action" "buildActionDocumentation action"] r2
  have i2: "I (f2, l2)" by simp
  have i3: "I (f3, l3)"
  proof (cases "nonEmpty (a_action action)")
    case True
    with r3 st' have "processActions stack 0 (listOf (a_action action)) l2 f2 = Inr (f3, l3)"
      by simp
    from "3.IH"(1) [OF refl refl r1 [symmetric] refl r2 [symmetric] True i2 this]
    show ?thesis .
  next
    case False
    with r3 i2 show ?thesis by simp
  qed
  show ?case
    using "3.IH"(2) [OF refl refl r1 [symmetric] refl r2 [symmetric]] r3 r4 i3 st' by (cases "nonEmpty (a_action action)") simp_all
qed

lemma node_then_flow:
  assumes "sound (f, l)"
    and "prefix \<noteq> []" "hd prefix \<noteq> CHR ''F''" "even h"
    and "\<And>i. el_id (mk i) = i" "\<And>i. el_type (mk i) \<noteq> sequenceFlow"
      "\<And>i. listOf (outgoing (mk i)) = []" "\<And>i. listOf (incoming (mk i)) = seeded (mk i)"
  shows "sound (fst (createSequenceFlow l (snd (addNode prefix mk w h f)) c n
                       (fst (addNode prefix mk w h f))),
                snd (addNode prefix mk w h f))"
proof -
  let ?f1 = "fst (addNode prefix mk w h f)" and ?i = "snd (addNode prefix mk w h f)"
  from assms(1) have wf: "wellFormed f" and l: "nodeIn f l"
    by (simp_all add: sound_def)
  note node = addNode_wellFormed [OF wf assms(2-8), of w]
  from node(2) have i1: "nodeIn ?f1 ?i" and l1: "nodeIn ?f1 l"
    using l by (simp_all add: nodeIn_def)
  note fl = createSequenceFlow_wellFormed [OF node(1) l1 i1, of c n]
  from fl(2) i1 have "nodeIn (fst (createSequenceFlow l ?i c n ?f1)) ?i"
    by (simp add: nodeIn_def)
  with fl(1) show ?thesis by (simp add: sound_def)
qed

lemma seeded_simps:
  "seeded \<lparr> el_id = i, el_type = ty, el_name = nm, el_documentation = doc, incoming = inc,
            outgoing = out, sourceRef = sr, targetRef = tr, conditionExpression = ce \<rparr> =
     (if ty = startEvent then [] else [''temp_incoming''])"
  by (simp add: seeded_def)

lemma triggerStep_sound: "sound (f, l) \<Longrightarrow> sound (triggerStep action d l f)"
proof (cases "nonEmpty (a_trigger action)")
  case False
  assume "sound (f, l)"
  with False show ?thesis by (simp add: triggerStep_def)
next
  case True
  assume s: "sound (f, l)"
  show ?thesis
    using True
    unfolding triggerStep_def createIntermediateEvent_def
    by (simp add: Let_def split_beta)
       (rule node_then_flow [OF s], simp_all add: EVENT_SIZE_def seeded_simps listOf_def)
qed

lemma taskStep_sound: "sound (f, l) \<Longrightarrow> sound (taskStep action nm d l f)"
proof -
  assume s: "sound (f, l)"
  have plain: "sound (fst (createSequenceFlow l' (snd (createTask nm ''temp_incoming'' (Some d) g))
                       c n (fst (createTask nm ''temp_incoming'' (Some d) g))),
                snd (createTask nm ''temp_incoming'' (Some d) g))"
    if "sound (g, l')" for g l' c n
    unfolding createTask_def
    by (rule node_then_flow [OF that]) (simp_all add: TASK_HEIGHT_def seeded_simps listOf_def)
  have gateway: "sound (fst (createSequenceFlow l (snd (createExclusiveGateway gn ''temp_incoming'' f))
                       None None (fst (createExclusiveGateway gn ''temp_incoming'' f))),
                snd (createExclusiveGateway gn ''temp_incoming'' f))" for gn
    unfolding createExclusiveGateway_def
    by (rule node_then_flow [OF s]) (simp_all add: GATEWAY_SIZE_def seeded_simps listOf_def)
  show ?thesis
  proof (cases "a_condition action")
    case None
    then show ?thesis
      using plain [OF s] by (simp add: taskStep_def Let_def split_beta)
  next
    case (Some cs)
    show ?thesis
    proof (cases cs)
      case Nil
      with Some show ?thesis
        using plain [OF s] by (simp add: taskStep_def Let_def split_beta)
    next
      case (Cons condition others)
      with Some show ?thesis
        using plain [OF gateway] by (simp add: taskStep_def Let_def split_beta)
    qed
  qed
qed

lemma processActions_sound:
  "sound (f, l) \<Longrightarrow> processActions stack i actions l f = Inr r \<Longrightarrow> sound r"
  by (rule processActions_invariant [where I = sound])
     (simp_all add: triggerStep_sound taskStep_sound)

subsection \<open>Every graph a conversion returns is well formed\<close>

lemma wellFormed_newFactory: "wellFormed newFactory"
  by (simp add: wellFormed_def idsOk_def shapesOk_def linksOk_def endsOk_def layoutOk_def
        newFactory_def)

lemma nodeIn_last: "map elKey (elements f) = ks @ [(i, False)] \<Longrightarrow> nodeIn f i"
  by (simp add: nodeIn_def)

lemma createStartEvent_sound: "wellFormed f \<Longrightarrow> sound (createStartEvent f)"
proof -
  assume wf: "wellFormed f"
  let ?mk = "\<lambda>i. \<lparr> el_id = i, el_type = startEvent, el_name = Some ''Start'',
              el_documentation = None, incoming = None, outgoing = Some [],
              sourceRef = None, targetRef = None, conditionExpression = None \<rparr>"
  have "wellFormed (fst (addNode ''StartEvent'' ?mk EVENT_SIZE EVENT_SIZE f))"
    and "map elKey (elements (fst (addNode ''StartEvent'' ?mk EVENT_SIZE EVENT_SIZE f))) =
           map elKey (elements f) @
             [(snd (addNode ''StartEvent'' ?mk EVENT_SIZE EVENT_SIZE f), False)]"
    by (rule addNode_wellFormed [OF wf];
        simp add: EVENT_SIZE_def seeded_simps listOf_def)+
  then show ?thesis
    by (simp add: sound_def createStartEvent_def split_beta nodeIn_last)
qed

lemma graphWith_sound:
  assumes "wellFormed factory" and "graphWith stack factory planDefinition = Inr (console, g)"
  shows "wellFormed g"
proof -
  obtain f1 start where r1: "createStartEvent factory = (f1, start)"
    by (cases "createStartEvent factory")
  with createStartEvent_sound [OF assms(1)] have s1: "sound (f1, start)" by simp
  let ?r2 = "if nonEmpty (pd_action planDefinition)
             then map_sum id (Pair [])
                    (processActions stack 0 (listOf (pd_action planDefinition)) start f1)
             else Inr ([Warn ''PlanDefinition has no actions''], f1, start)"
  from assms(2) r1 obtain c f2 l2 where r2: "?r2 = Inr (c, f2, l2)"
    by (cases ?r2) (auto simp: graphWith_def)
  have s2: "sound (f2, l2)"
  proof (cases "nonEmpty (pd_action planDefinition)")
    case True
    with r2 have "processActions stack 0 (listOf (pd_action planDefinition)) start f1 =
        Inr (f2, l2)"
      by (cases "processActions stack 0 (listOf (pd_action planDefinition)) start f1") auto
    with s1 show ?thesis by (rule processActions_sound)
  next
    case False
    with r2 s1 show ?thesis by simp
  qed
  let ?f4 = "fst (createSequenceFlow l2 (snd (createEndEvent ''temp_incoming'' f2)) None None
                    (fst (createEndEvent ''temp_incoming'' f2)))"
  have "sound (?f4, snd (createEndEvent ''temp_incoming'' f2))"
    unfolding createEndEvent_def
    by (rule node_then_flow [OF s2]) (simp_all add: EVENT_SIZE_def seeded_simps listOf_def)
  then have wf4: "wellFormed ?f4" by (simp add: sound_def)
  have "graphWith stack factory planDefinition =
          (case ?r2 of Inl e \<Rightarrow> Inl e | Inr (console, f2, l2) \<Rightarrow>
             Inr (console,
                  fst (createSequenceFlow l2 (snd (createEndEvent ''temp_incoming'' f2)) None None
                    (fst (createEndEvent ''temp_incoming'' f2)))))"
    using r1 by (simp add: graphWith_def Let_def split_beta cong: sum.case_cong)
  with assms(2) r2 have "g = ?f4" and "c = console"
    by simp_all
  with wf4 show ?thesis by simp
qed

lemma buildGraph_wellFormed: "buildGraph stack planDefinition = Inr (console, g) \<Longrightarrow> wellFormed g"
  unfolding buildGraph_def by (rule graphWith_sound [OF wellFormed_newFactory])

subsection \<open>When the walker returns\<close>






lemma graphWith_start:
  "graphWith stack factory planDefinition =
     (case (if nonEmpty (pd_action planDefinition)
            then map_sum id (Pair [])
                   (processActions stack 0 (listOf (pd_action planDefinition))
                      (snd (createStartEvent factory)) (fst (createStartEvent factory)))
            else Inr ([Warn ''PlanDefinition has no actions''], createStartEvent factory)) of
        Inl e \<Rightarrow> Inl e
      | Inr (console, f2, l2) \<Rightarrow>
          Inr (console,
               fst (createSequenceFlow l2 (snd (createEndEvent ''temp_incoming'' f2)) None None
                      (fst (createEndEvent ''temp_incoming'' f2)))))"
  by (simp add: graphWith_def Let_def split_beta cong: sum.case_cong)






subsection \<open>What the walker appends\<close>

lemma triggerStep_none:
  "\<not> nonEmpty (a_trigger action) \<Longrightarrow> triggerStep action d l f = (f, l)"
  by (simp add: triggerStep_def)

lemma triggerStep_unlinked:
  assumes "nonEmpty (a_trigger action)" and "triggerStep action d l f = (f1, l1)"
  shows "l1 = nodeId ''IntermediateEvent'' f \<and>
     map unlinked (elements f1) = map unlinked (elements f) @
       [node l1 intermediateEvent (''Trigger: '' @ triggerLabel (listOf (a_trigger action)))
          (Some d),
        flow (flowId f) l l1 None None] \<and>
     elementCounter f1 = Suc (elementCounter f) \<and> flowCounter f1 = Suc (flowCounter f)"
proof -
  let ?nm = "''Trigger: '' @ triggerLabel (listOf (a_trigger action))"
  obtain g ev where ev: "createIntermediateEvent ?nm ''temp_incoming'' (Some d) f = (g, ev)"
    by (cases "createIntermediateEvent ?nm ''temp_incoming'' (Some d) f")
  obtain g' fl where fl: "createSequenceFlow l ev None None g = (g', fl)"
    by (cases "createSequenceFlow l ev None None g")
  from assms ev fl have "f1 = g'" and "l1 = ev"
    by (simp_all add: triggerStep_def triggerLabel_def)
  with createIntermediateEvent_unlinked [OF ev] createSequenceFlow_unlinked [OF fl]
  show ?thesis
    by (simp add: truthy_def flowId_def)
qed

lemma taskStep_condition:
  assumes "a_condition action = Some (condition # others)"
    and "taskStep action nm d l f = (f2, l2)"
  shows "l2 = ''Task_'' @ showNat (elementCounter f + 2) \<and>
     map unlinked (elements f2) = map unlinked (elements f) @
       [node (nodeId ''Gateway'' f) exclusiveGateway
          (''Decision: '' @
             orDefault (exprText (cond_expression condition)) ''Check Condition'') None,
        flow (flowId f) l (nodeId ''Gateway'' f) None None,
        node l2 task nm (Some d),
        flow (''Flow_'' @ showNat (flowCounter f + 2)) (nodeId ''Gateway'' f) l2
          (Some ''Yes'')
          (if truthy (exprText (cond_expression condition))
           then exprText (cond_expression condition) else None)] \<and>
     elementCounter f2 = elementCounter f + 2 \<and> flowCounter f2 = flowCounter f + 2"
proof -
  let ?gname =
    "''Decision: '' @ orDefault (exprText (cond_expression condition)) ''Check Condition''"
  obtain g1 g where g: "createExclusiveGateway ?gname ''temp_incoming'' f = (g1, g)"
    by (cases "createExclusiveGateway ?gname ''temp_incoming'' f")
  obtain g2 fl where fl: "createSequenceFlow l g None None g1 = (g2, fl)"
    by (cases "createSequenceFlow l g None None g1")
  obtain g3 t where t: "createTask nm ''temp_incoming'' (Some d) g2 = (g3, t)"
    by (cases "createTask nm ''temp_incoming'' (Some d) g2")
  obtain g4 y where y:
    "createSequenceFlow g t (exprText (cond_expression condition)) (Some ''Yes'') g3 = (g4, y)"
    by (cases "createSequenceFlow g t (exprText (cond_expression condition)) (Some ''Yes'') g3")
  from assms g fl t y have "f2 = g4" and "l2 = t"
    by (simp_all add: taskStep_def)
  with createExclusiveGateway_unlinked [OF g] createSequenceFlow_unlinked [OF fl]
    createTask_unlinked [OF t] createSequenceFlow_unlinked [OF y]
  show ?thesis
    by (simp add: truthy_def flowId_def nodeId_def)
qed

lemma taskStep_plain:
  assumes "a_condition action = None \<or> a_condition action = Some []"
    and "taskStep action nm d l f = (f2, l2)"
  shows "l2 = nodeId ''Task'' f \<and>
     map unlinked (elements f2) = map unlinked (elements f) @
       [node l2 task nm (Some d), flow (flowId f) l l2 None None] \<and>
     elementCounter f2 = Suc (elementCounter f) \<and> flowCounter f2 = Suc (flowCounter f)"
proof -
  obtain g1 t where t: "createTask nm ''temp_incoming'' (Some d) f = (g1, t)"
    by (cases "createTask nm ''temp_incoming'' (Some d) f")
  obtain g2 fl where fl: "createSequenceFlow l t None None g1 = (g2, fl)"
    by (cases "createSequenceFlow l t None None g1")
  from assms t fl have "f2 = g2" and "l2 = t"
    by (auto simp: taskStep_def)
  with createTask_unlinked [OF t] createSequenceFlow_unlinked [OF fl]
  show ?thesis
    by (simp add: truthy_def flowId_def)
qed

lemma condition_cases:
  obtains (plain) "a_condition action = None \<or> a_condition action = Some []"
  | (guarded) condition others where "a_condition action = Some (condition # others)"
proof (cases "a_condition action")
  case None
  then show ?thesis by (simp add: plain)
next
  case (Some cs)
  then show ?thesis by (cases cs) (simp_all add: plain guarded)
qed

text \<open>Each step starts with a node and a flow from the frontier to it, and only appends.\<close>

lemma taskStep_first:
  assumes "taskStep action nm d l f = (f2, l2)"
  shows "\<exists>n xs. (el_type n = exclusiveGateway \<or> el_type n = task) \<and>
     map unlinked (elements f2) =
       map unlinked (elements f) @ n # flow (flowId f) l (el_id n) None None # xs"
proof (cases action rule: condition_cases)
  case plain
  from taskStep_plain [OF plain assms] show ?thesis
    by (auto simp: node_def)
next
  case (guarded condition others)
  from taskStep_condition [OF guarded assms] show ?thesis
    by (auto simp: node_def)
qed

lemma triggerStep_appends:
  assumes "triggerStep action d l f = (f1, l1)"
  shows "\<exists>xs. map unlinked (elements f1) = map unlinked (elements f) @ xs"
proof (cases "nonEmpty (a_trigger action)")
  case True
  from triggerStep_unlinked [OF True assms] show ?thesis by simp
next
  case False
  with assms show ?thesis by (simp add: triggerStep_none)
qed

lemma taskStep_appends:
  assumes "taskStep action nm d l f = (f2, l2)"
  shows "\<exists>xs. map unlinked (elements f2) = map unlinked (elements f) @ xs"
  using taskStep_first [OF assms] by auto

lemma processActions_appends:
  assumes "processActions stack i actions l f = Inr (f', l')"
  shows "\<exists>xs. map unlinked (elements f') = map unlinked (elements f) @ xs"
proof -
  let ?I = "\<lambda>r. \<exists>xs. map unlinked (elements (fst r)) = map unlinked (elements f) @ xs"
  have trig: "?I (triggerStep action d l g)" if "?I (g, l)" for action d l g
    using that triggerStep_appends [of action d l g] by (cases "triggerStep action d l g") auto
  have task: "?I (taskStep action n d l g)" if "?I (g, l)" for action n d l g
    using that taskStep_appends [of action n d l g] by (cases "taskStep action n d l g") auto
  have "?I (f, l)" by simp
  from processActions_invariant [where I = ?I, OF trig task this assms]
  show ?thesis by simp
qed

lemma processActions_Nil: "processActions stack i [] l f = Inr (f', l') \<Longrightarrow> f' = f \<and> l' = l"
  by (cases stack) simp_all

lemma processActions_first:
  assumes "processActions stack i (action # rest) l f = Inr (f', l')"
  shows "\<exists>n xs. el_type n \<noteq> sequenceFlow \<and>
     map unlinked (elements f') =
       map unlinked (elements f) @ n # flow (flowId f) l (el_id n) None None # xs"
proof -
  from assms obtain stack' f1 l1 f2 l2 f3 l3 where
    r1: "triggerStep action (buildActionDocumentation action) l f = (f1, l1)"
    and r2: "taskStep action (actionName i action) (buildActionDocumentation action) l1 f1 =
               (f2, l2)"
    and r3: "(if nonEmpty (a_action action)
      then processActions stack' 0 (listOf (a_action action)) l2 f2 else Inr (f2, l2)) =
       Inr (f3, l3)"
    and r4: "processActions stack (Suc i) rest l3 f3 = Inr (f', l')"
    by (rule processActions_Cons)
  have "\<exists>n xs. el_type n \<noteq> sequenceFlow \<and>
     map unlinked (elements f2) =
       map unlinked (elements f) @ n # flow (flowId f) l (el_id n) None None # xs"
  proof (cases "nonEmpty (a_trigger action)")
    case True
    from triggerStep_unlinked [OF True r1] taskStep_appends [OF r2] show ?thesis
      by (auto simp: node_def)
  next
    case False
    with r1 have "f1 = f" and "l1 = l" by (simp_all add: triggerStep_none)
    with taskStep_first [OF r2] show ?thesis by auto
  qed
  moreover have "\<exists>xs. map unlinked (elements f3) = map unlinked (elements f2) @ xs"
    using r3 processActions_appends [of stack' 0 "listOf (a_action action)" l2 f2 f3 l3]
    by (cases "nonEmpty (a_action action)") auto
  moreover note processActions_appends [OF r4]
  ultimately show ?thesis by auto
qed

text \<open>
  What follows the steps of an action: the elements of its nested actions and of its
  later siblings, the first of them linked to the frontier the steps have left.
\<close>

lemma action_walk:
  assumes "processActions stack i (action # rest) l f = Inr (f', l')"
  obtains f1 l1 f2 l2 more where
    "triggerStep action (buildActionDocumentation action) l f = (f1, l1)"
    "taskStep action (actionName i action) (buildActionDocumentation action) l1 f1 = (f2, l2)"
    "map unlinked (elements f') = map unlinked (elements f2) @ more"
    "if nonEmpty (a_action action) \<or> rest \<noteq> []
     then \<exists>n ys. el_type n \<noteq> sequenceFlow \<and>
            more = n # flow (flowId f2) l2 (el_id n) None None # ys
     else more = [] \<and> l' = l2"
proof -
  from assms obtain stack' f1 l1 f2 l2 f3 l3 where
    r1: "triggerStep action (buildActionDocumentation action) l f = (f1, l1)"
    and r2: "taskStep action (actionName i action) (buildActionDocumentation action) l1 f1 =
               (f2, l2)"
    and r3: "(if nonEmpty (a_action action)
      then processActions stack' 0 (listOf (a_action action)) l2 f2 else Inr (f2, l2)) =
       Inr (f3, l3)"
    and r4: "processActions stack (Suc i) rest l3 f3 = Inr (f', l')"
    by (rule processActions_Cons)
  from processActions_appends [OF r4] obtain zs where
    zs: "map unlinked (elements f') = map unlinked (elements f3) @ zs" by blast
  have "\<exists>more. map unlinked (elements f') = map unlinked (elements f2) @ more \<and>
     (if nonEmpty (a_action action) \<or> rest \<noteq> []
      then \<exists>n ys. el_type n \<noteq> sequenceFlow \<and>
             more = n # flow (flowId f2) l2 (el_id n) None None # ys
      else more = [] \<and> l' = l2)"
  proof (cases "nonEmpty (a_action action)")
    case True
    with r3 have nested: "processActions stack' 0 (listOf (a_action action)) l2 f2 = Inr (f3, l3)"
      by simp
    from True obtain a as where "listOf (a_action action) = a # as"
      by (cases "listOf (a_action action)")
         (auto simp: nonEmpty_def listOf_def split: option.splits)
    with processActions_first [of stack' 0 a as l2 f2 f3 l3] nested zs True
    show ?thesis by auto
  next
    case False
    with r3 have same: "f3 = f2" "l3 = l2" by simp_all
    show ?thesis
    proof (cases rest)
      case Nil
      with r4 same False show ?thesis
        by (auto dest: processActions_Nil)
    next
      case (Cons a as)
      with processActions_first [of stack "Suc i" a as l2 f2 f' l'] r4 same False
      show ?thesis by auto
    qed
  qed
  then obtain more where
    "map unlinked (elements f') = map unlinked (elements f2) @ more"
    "if nonEmpty (a_action action) \<or> rest \<noteq> []
     then \<exists>n ys. el_type n \<noteq> sequenceFlow \<and>
            more = n # flow (flowId f2) l2 (el_id n) None None # ys
     else more = [] \<and> l' = l2"
    by blast
  with r1 r2 show ?thesis by (rule that)
qed

subsection \<open>Evaluation of the walker\<close>

lemma processActions_numeral_Nil:
  "processActions (numeral k) i [] lastElementId f = Inr (f, lastElementId)"
  by (simp add: numeral_eq_Suc)

lemma processActions_numeral_Cons:
  "processActions (numeral k) i (action # rest) lastElementId f =
     (let documentation = buildActionDocumentation action;
          (f1, l1) = triggerStep action documentation lastElementId f;
          (f2, l2) = taskStep action (actionName i action) documentation l1 f1
      in case (if nonEmpty (a_action action)
               then processActions (pred_numeral k) 0 (listOf (a_action action)) l2 f2
               else Inr (f2, l2)) of
           Inl e \<Rightarrow> Inl e
         | Inr (f3, l3) \<Rightarrow> processActions (numeral k) (Suc i) rest l3 f3)"
  by (rule processActions.simps(3) [of "pred_numeral k", folded numeral_eq_Suc])

lemmas walk_exec = exec processActions_numeral_Nil processActions_numeral_Cons started_def
  node_def unlinked_def

subsection \<open>Ampersands and entities\<close>






























subsection \<open>Two serialized documents\<close>





section \<open>The root check\<close>

text \<open>
  Claim C4. A document whose \<open>resourceType\<close> is missing or is not \<open>PlanDefinition\<close>
  makes the conversion fail with the invalid-root error, whatever the size of the call
  stack: the result is the error alone, with no XML, and the only console output is the
  logged error. No factory is created on that path.
\<close>

theorem invalid_root_rejected:
  "rootType input \<noteq> Some ''PlanDefinition'' \<Longrightarrow>
     convertPlanDefinitionToBpmn stack input =
       ([LogError InvalidPlanDefinition], Inl InvalidPlanDefinition)"
  by (cases input)
     (simp_all add: convertPlanDefinitionToBpmn_def rootType_def)

theorem invalid_root_rejected_witness:
  "rootType (Some patientDocument) \<noteq> Some ''PlanDefinition'' \<and>
   convertPlanDefinitionToBpmn 10000 (Some patientDocument) =
     ([LogError InvalidPlanDefinition], Inl InvalidPlanDefinition)"
  using invalid_root_rejected [of "Some patientDocument" 10000]
  by (simp add: rootType_def patientDocument_def)


section \<open>Deeply nested actions\<close>





section \<open>A plan without actions\<close>

text \<open>
  Claim C6. When the action list of a plan definition is absent or empty, the conversion
  succeeds, whatever the size of the call stack; the console receives one warning, and
  the graph is one start event, one end event and one flow from the first to the second,
  with nothing else.
\<close>

theorem empty_plan_graph:
  assumes "resourceType pd = Some ''PlanDefinition''"
    and "pd_action pd = None \<or> pd_action pd = Some []"
  shows "(\<exists>xml. convertPlanDefinitionToBpmn stack (Some pd) =
            ([Warn ''PlanDefinition has no actions''], Inr xml)) \<and>
         (\<exists>g. buildGraph stack pd = Inr ([Warn ''PlanDefinition has no actions''], g) \<and>
            elements g =
              [\<lparr> el_id = ''StartEvent_1'', el_type = startEvent, el_name = Some ''Start'',
                 el_documentation = None, incoming = None, outgoing = Some [''Flow_1''],
                 sourceRef = None, targetRef = None, conditionExpression = None \<rparr>,
               \<lparr> el_id = ''EndEvent_2'', el_type = endEvent, el_name = Some ''End'',
                 el_documentation = None, incoming = Some [''temp_incoming'', ''Flow_1''],
                 outgoing = None, sourceRef = None, targetRef = None,
                 conditionExpression = None \<rparr>,
               \<lparr> el_id = ''Flow_1'', el_type = sequenceFlow, el_name = None,
                 el_documentation = None, incoming = None, outgoing = None,
                 sourceRef = Some ''StartEvent_1'', targetRef = Some ''EndEvent_2'',
                 conditionExpression = None \<rparr>])"
proof -
  from assms(2) have none: "\<not> nonEmpty (pd_action pd)"
    by (auto simp: nonEmpty_def)
  let ?g = "fst (createSequenceFlow (snd (createStartEvent newFactory))
                   (snd (createEndEvent ''temp_incoming'' (fst (createStartEvent newFactory))))
                   None None
                   (fst (createEndEvent ''temp_incoming'' (fst (createStartEvent newFactory)))))"
  from none have graph: "buildGraph stack pd = Inr ([Warn ''PlanDefinition has no actions''], ?g)"
    by (simp add: buildGraph_def graphWith_start split_beta)
  have els: "elements ?g =
           [\<lparr> el_id = ''StartEvent_1'', el_type = startEvent, el_name = Some ''Start'',
              el_documentation = None, incoming = None, outgoing = Some [''Flow_1''],
              sourceRef = None, targetRef = None, conditionExpression = None \<rparr>,
            \<lparr> el_id = ''EndEvent_2'', el_type = endEvent, el_name = Some ''End'',
              el_documentation = None, incoming = Some [''temp_incoming'', ''Flow_1''],
              outgoing = None, sourceRef = None, targetRef = None,
              conditionExpression = None \<rparr>,
            \<lparr> el_id = ''Flow_1'', el_type = sequenceFlow, el_name = None,
              el_documentation = None, incoming = None, outgoing = None,
              sourceRef = Some ''StartEvent_1'', targetRef = Some ''EndEvent_2'',
              conditionExpression = None \<rparr>]"
    by (simp add: createStartEvent_def createEndEvent_def
          addNode_def generateId_def newFactory_def advanceX_def getCenterY_def
          createSequenceFlow_def generateFlowId_def showNat.simps pushOutgoing_def
          pushIncoming_def truthy_def edgeFor_def orZero_def EVENT_SIZE_def
          HORIZONTAL_SPACING_def)
  from assms(1) graph have "\<exists>xml. convertPlanDefinitionToBpmn stack (Some pd) =
            ([Warn ''PlanDefinition has no actions''], Inr xml)"
    by (simp add: convertPlanDefinitionToBpmn_def Let_def)
  with graph els show ?thesis
    by blast
qed

theorem empty_plan_graph_witness:
  "resourceType (plan None) = Some ''PlanDefinition'' \<and>
   (pd_action (plan None) = None \<or> pd_action (plan None) = Some []) \<and>
   (\<exists>g. buildGraph 10000 (plan None) = Inr ([Warn ''PlanDefinition has no actions''], g) \<and>
      map el_type (elements g) = [startEvent, endEvent, sequenceFlow])"
  using empty_plan_graph [of "plan None" 10000]
  by (auto simp: plan_def)


section \<open>Placeholders in the incoming lists\<close>

text \<open>
  Claim C1, at the plan with the single action titled \<open>A\<close>, converted with room on
  the call stack for at least one activation of \<^verbatim>\<open>processActions\<close>, which is all
  this plan needs. Every constructor seeds the
  incoming list of its node with the placeholder \<open>temp_incoming\<close>, and
  \<open>createSequenceFlow\<close> appends the real flow to it: the task of the finished graph
  lists the placeholder, which is the identifier of no element, before its one real
  incoming flow.
\<close>

theorem placeholder_remains:
  "\<not> isl (buildGraph (Suc stack) (plan (Some [titled ''A'']))) \<and>
   el_type (elements (snd (projr (buildGraph (Suc stack) (plan (Some [titled ''A'']))))) ! 1) =
     task \<and>
   incoming (elements (snd (projr (buildGraph (Suc stack) (plan (Some [titled ''A'']))))) ! 1) =
     Some [''temp_incoming'', ''Flow_1''] \<and>
   ''temp_incoming'' \<notin>
     set (map el_id (elements (snd (projr (buildGraph (Suc stack) (plan (Some [titled ''A''])))))))"
  by (simp add: walk_exec titled_def)


section \<open>Composed documentation\<close>

text \<open>
  Claim C9, at an action whose only coding has neither a display nor a code. The type
  line is pushed whenever the coding list is not empty, also when every value is
  filtered out: the documentation is then the label \<open>Type\<close> with an empty value.
\<close>

theorem type_label_without_value:
  "buildActionDocumentation uncodedAction = ''Type: ''"
  by (simp add: doc_exec uncodedAction_def nonEmpty_def listOf_def truthy_def)


section \<open>The steps of the walker\<close>

text \<open>
  Claim C2, amended. Let the walk of a list of actions return, and let the first action
  of the list have at least one trigger. The first two elements the walker appends to
  the graph are an intermediate event and a flow. The event is named \<open>Trigger: \<close>
  followed by the trigger names (each falling back to the trigger type, the empty ones
  left out) joined with a comma and a space, and it carries the documentation composed
  for the action. The flow runs from the frontier the walk started with to the event.
  The event is the new frontier: the node created next is the gateway or the task of
  the same action, not another event, and the flow created for it leaves the event.
  Of the older elements nothing changes but the linkage lists.
\<close>

theorem trigger_event_created:
  assumes "a_trigger action = Some ts" and "ts \<noteq> []"
    and "processActions stack i (action # rest) lastElementId f = Inr (f', frontier)"
  shows "\<exists>next more.
     map unlinked (elements f') = map unlinked (elements f) @
       [node (nodeId ''IntermediateEvent'' f) intermediateEvent
          (''Trigger: '' @ triggerLabel ts) (Some (buildActionDocumentation action)),
        flow (flowId f) lastElementId (nodeId ''IntermediateEvent'' f) None None,
        next,
        flow (''Flow_'' @ showNat (flowCounter f + 2)) (nodeId ''IntermediateEvent'' f)
          (el_id next) None None] @ more \<and>
     (el_type next = exclusiveGateway \<or> el_type next = task)"
proof -
  from assms(1,2) have ne: "nonEmpty (a_trigger action)" and ts: "listOf (a_trigger action) = ts"
    by (simp_all add: nonEmpty_def listOf_def)
  from assms(3) obtain f1 l1 f2 l2 more where
    r1: "triggerStep action (buildActionDocumentation action) lastElementId f = (f1, l1)"
    and r2: "taskStep action (actionName i action) (buildActionDocumentation action) l1 f1 =
               (f2, l2)"
    and rest: "map unlinked (elements f') = map unlinked (elements f2) @ more"
    by (rule action_walk)
  from taskStep_first [OF r2] obtain n xs where
    n: "el_type n = exclusiveGateway \<or> el_type n = task"
    and f2: "map unlinked (elements f2) =
       map unlinked (elements f1) @ n # flow (flowId f1) l1 (el_id n) None None # xs"
    by blast
  from triggerStep_unlinked [OF ne r1] ts f2 rest
  have "map unlinked (elements f') = map unlinked (elements f) @
       [node (nodeId ''IntermediateEvent'' f) intermediateEvent
          (''Trigger: '' @ triggerLabel ts) (Some (buildActionDocumentation action)),
        flow (flowId f) lastElementId (nodeId ''IntermediateEvent'' f) None None,
        n,
        flow (''Flow_'' @ showNat (flowCounter f + 2)) (nodeId ''IntermediateEvent'' f)
          (el_id n) None None] @ (xs @ more)"
    by (simp add: flowId_def)
  with n show ?thesis by blast
qed

theorem trigger_event_created_witness:
  "a_trigger waitAction = Some [goTrigger, timerTrigger, bareTrigger] \<and>
   [goTrigger, timerTrigger, bareTrigger] \<noteq> [] \<and>
   triggerLabel [goTrigger, timerTrigger, bareTrigger] = ''go, periodic'' \<and>
   (\<exists>f' frontier.
      processActions 10000 0 [waitAction] ''StartEvent_1'' started = Inr (f', frontier) \<and>
      frontier = ''Task_3'' \<and>
      map unlinked (elements f') =
        [node ''StartEvent_1'' startEvent ''Start'' None,
         node ''IntermediateEvent_2'' intermediateEvent ''Trigger: go, periodic''
           (Some ''Triggers: event: go; periodic: unnamed; event: unnamed''),
         flow ''Flow_1'' ''StartEvent_1'' ''IntermediateEvent_2'' None None,
         node ''Task_3'' task ''Wait''
           (Some ''Triggers: event: go; periodic: unnamed; event: unnamed''),
         flow ''Flow_2'' ''IntermediateEvent_2'' ''Task_3'' None None])"
  using trigger_event_created [where action = waitAction
      and ts = "[goTrigger, timerTrigger, bareTrigger]" and stack = 10000 and i = 0
      and rest = "[]" and lastElementId = "''StartEvent_1''" and f = started
      and f' = "fst (projr (processActions 10000 0 [waitAction] ''StartEvent_1'' started))"
      and frontier = "snd (projr (processActions 10000 0 [waitAction] ''StartEvent_1'' started))"]
  by (simp add: walk_exec doc_exec waitAction_def goTrigger_def timerTrigger_def bareTrigger_def
        triggerLabel_def)

text \<open>
  Claim C2 as stated fails: the one trigger of the action is named \<open>go\<close>, so the joined
  trigger names are \<open>go\<close>, and the intermediate event of the converted plan is named
  \<open>Trigger: go\<close>.
\<close>

theorem trigger_name_counterexample:
  "nonEmpty (a_trigger triggerAction) \<and>
   \<not> isl (buildGraph 10000 (plan (Some [triggerAction]))) \<and>
   el_type (elements (snd (projr (buildGraph 10000 (plan (Some [triggerAction]))))) ! 1) =
     intermediateEvent \<and>
   triggerLabel (listOf (a_trigger triggerAction)) = ''go'' \<and>
   el_name (elements (snd (projr (buildGraph 10000 (plan (Some [triggerAction]))))) ! 1) =
     Some ''Trigger: go'' \<and>
   el_name (elements (snd (projr (buildGraph 10000 (plan (Some [triggerAction]))))) ! 1) \<noteq>
     Some (triggerLabel (listOf (a_trigger triggerAction)))"
  by (simp add: walk_exec doc_exec triggerAction_def goTrigger_def triggerLabel_def)

text \<open>
  Claim C3, amended. Let the walk of a list of actions return, and let the first action
  of the list have at least one condition. After the elements of its triggers, if it has
  any, the walker appends exactly a gateway, a flow to the gateway, a task, and a flow
  named \<open>Yes\<close> from the gateway to the task; only the first condition is read. The
  gateway is named \<open>Decision: \<close> followed by the expression text, or by
  \<open>Check Condition\<close> when the text is absent or empty. The flow to the gateway leaves
  the frontier of that moment: the intermediate event when the action has triggers, the
  frontier the walk started with otherwise. The task has the name and the composed
  documentation of the action. The flow named \<open>Yes\<close> carries the expression text as
  its condition expression when the text is present and not empty, and no condition
  expression otherwise. The task is the new frontier: when the action has nested actions
  or later siblings, the next node created is linked by a flow that leaves the task;
  when it has neither, nothing more is created and the walk returns the task.
\<close>

theorem condition_gateway_created:
  assumes "a_condition action = Some (condition # others)"
    and "processActions stack i (action # rest) lastElementId f = Inr (f', frontier)"
  shows "(let n = elementCounter f + triggerEvents action;
              m = flowCounter f + triggerEvents action;
              gatewayId = ''Gateway_'' @ showNat (n + 1);
              taskId = ''Task_'' @ showNat (n + 2)
          in \<exists>more.
     map unlinked (elements f') =
       map unlinked (elements f) @ triggerElements action lastElementId f @
       [node gatewayId exclusiveGateway
          (''Decision: '' @
             orDefault (exprText (cond_expression condition)) ''Check Condition'') None,
        flow (''Flow_'' @ showNat (m + 1)) (triggerFrontier action lastElementId f) gatewayId
          None None,
        node taskId task (actionName i action)
          (Some (buildActionDocumentation action)),
        flow (''Flow_'' @ showNat (m + 2)) gatewayId taskId (Some ''Yes'')
          (if truthy (exprText (cond_expression condition))
           then exprText (cond_expression condition) else None)] @ more \<and>
     (if nonEmpty (a_action action) \<or> rest \<noteq> []
      then \<exists>next ys. el_type next \<noteq> sequenceFlow \<and>
             more = next # flow (''Flow_'' @ showNat (m + 3)) taskId (el_id next) None None # ys
      else more = [] \<and> frontier = taskId))"
proof -
  from assms(2) obtain f1 l1 f2 l2 more where
    r1: "triggerStep action (buildActionDocumentation action) lastElementId f = (f1, l1)"
    and r2: "taskStep action (actionName i action) (buildActionDocumentation action) l1 f1 =
               (f2, l2)"
    and rest: "map unlinked (elements f') = map unlinked (elements f2) @ more"
    and more: "if nonEmpty (a_action action) \<or> rest \<noteq> []
     then \<exists>n ys. el_type n \<noteq> sequenceFlow \<and>
            more = n # flow (flowId f2) l2 (el_id n) None None # ys
     else more = [] \<and> frontier = l2"
    by (rule action_walk)
  note step = taskStep_condition [OF assms(1) r2]
  have trig: "l1 = triggerFrontier action lastElementId f \<and>
     map unlinked (elements f1) =
       map unlinked (elements f) @ triggerElements action lastElementId f \<and>
     elementCounter f1 = elementCounter f + triggerEvents action \<and>
     flowCounter f1 = flowCounter f + triggerEvents action"
  proof (cases "nonEmpty (a_trigger action)")
    case True
    from triggerStep_unlinked [OF True r1] True show ?thesis
      by (simp add: triggerFrontier_def triggerElements_def triggerEvents_def)
  next
    case False
    with r1 show ?thesis
      by (simp add: triggerStep_none triggerFrontier_def triggerElements_def triggerEvents_def)
  qed
  from step trig have l2: "l2 = ''Task_'' @ showNat (elementCounter f + triggerEvents action + 2)"
    and fid: "flowId f2 = ''Flow_'' @ showNat (flowCounter f + triggerEvents action + 3)"
    by (simp_all add: flowId_def numeral_3_eq_3)
  from step trig rest have els: "map unlinked (elements f') =
       map unlinked (elements f) @ triggerElements action lastElementId f @
       [node (''Gateway_'' @ showNat (elementCounter f + triggerEvents action + 1))
          exclusiveGateway
          (''Decision: '' @
             orDefault (exprText (cond_expression condition)) ''Check Condition'') None,
        flow (''Flow_'' @ showNat (flowCounter f + triggerEvents action + 1))
          (triggerFrontier action lastElementId f)
          (''Gateway_'' @ showNat (elementCounter f + triggerEvents action + 1)) None None,
        node l2 ElementType.task (actionName i action)
          (Some (buildActionDocumentation action)),
        flow (''Flow_'' @ showNat (flowCounter f + triggerEvents action + 2))
          (''Gateway_'' @ showNat (elementCounter f + triggerEvents action + 1)) l2
          (Some ''Yes'')
          (if truthy (exprText (cond_expression condition))
           then exprText (cond_expression condition) else None)] @ more"
    by (simp add: flowId_def nodeId_def)
  from els more show ?thesis
    unfolding Let_def l2 [symmetric] fid [symmetric] by blast
qed

theorem condition_gateway_created_witness:
  "a_condition guardedAction = Some (ageCondition # [consentCondition]) \<and>
   (\<exists>f' frontier.
      processActions 10000 0 [guardedAction, titled ''Next''] ''StartEvent_1'' started =
        Inr (f', frontier) \<and>
      frontier = ''Task_5'' \<and>
      map unlinked (elements f') =
        [node ''StartEvent_1'' startEvent ''Start'' None,
         node ''IntermediateEvent_2'' intermediateEvent ''Trigger: go''
           (Some ''Triggers: event: go\<newline>Condition 1: patient.age >= 18\<newline>Condition 2: patient.consent''),
         flow ''Flow_1'' ''StartEvent_1'' ''IntermediateEvent_2'' None None,
         node ''Gateway_3'' exclusiveGateway ''Decision: patient.age >= 18'' None,
         flow ''Flow_2'' ''IntermediateEvent_2'' ''Gateway_3'' None None,
         node ''Task_4'' task ''Check Eligibility''
           (Some ''Triggers: event: go\<newline>Condition 1: patient.age >= 18\<newline>Condition 2: patient.consent''),
         flow ''Flow_3'' ''Gateway_3'' ''Task_4'' (Some ''Yes'') (Some ''patient.age >= 18''),
         node ''Task_5'' task ''Next'' (Some []),
         flow ''Flow_4'' ''Task_4'' ''Task_5'' None None])"
  using condition_gateway_created [where action = guardedAction and condition = ageCondition
      and others = "[consentCondition]" and stack = 10000 and i = 0
      and rest = "[titled ''Next'']" and lastElementId = "''StartEvent_1''" and f = started
      and f' = "fst (projr (processActions 10000 0 [guardedAction, titled ''Next'']
                              ''StartEvent_1'' started))"
      and frontier = "snd (projr (processActions 10000 0 [guardedAction, titled ''Next'']
                                    ''StartEvent_1'' started))"]
  by (simp add: walk_exec doc_exec guardedAction_def goTrigger_def ageCondition_def
        consentCondition_def titled_def)

text \<open>
  Claim C3 as stated fails: the expression text of the one condition is present and
  empty; the gateway of the converted plan is named \<open>Decision: Check Condition\<close>, not
  \<open>Decision: \<close> followed by the text, and the flow named \<open>Yes\<close> has no condition
  expression.
\<close>

theorem empty_expression_counterexample:
  "a_condition blankConditionAction = Some [blankCondition] \<and>
   exprText (cond_expression blankCondition) = Some [] \<and>
   \<not> isl (buildGraph 10000 (plan (Some [blankConditionAction]))) \<and>
   el_name (elements (snd (projr (buildGraph 10000 (plan (Some [blankConditionAction]))))) ! 1) \<noteq>
     Some (''Decision: '' @ strOf (exprText (cond_expression blankCondition))) \<and>
   conditionExpression
       (elements (snd (projr (buildGraph 10000 (plan (Some [blankConditionAction]))))) ! 4) \<noteq>
     exprText (cond_expression blankCondition) \<and>
   el_type (elements (snd (projr (buildGraph 10000 (plan (Some [blankConditionAction]))))) ! 1) =
     exclusiveGateway \<and>
   el_name (elements (snd (projr (buildGraph 10000 (plan (Some [blankConditionAction]))))) ! 1) =
     Some ''Decision: Check Condition'' \<and>
   el_name (elements (snd (projr (buildGraph 10000 (plan (Some [blankConditionAction]))))) ! 4) =
     Some ''Yes'' \<and>
   conditionExpression
       (elements (snd (projr (buildGraph 10000 (plan (Some [blankConditionAction]))))) ! 4) =
     None"
  by (simp add: walk_exec doc_exec blankConditionAction_def blankCondition_def)


section \<open>Layout\<close>

text \<open>
  Claim C8. The cursor of a new factory is at 100. Each constructor places the shape of
  its node at the cursor, with the fixed width and height of the kind, centred on the
  centre line, and moves the cursor on by the width and the spacing. When both ends of a
  flow have a shape, \<open>createSequenceFlow\<close> appends one edge with exactly two waypoints:
  the middle of the right side of the source shape and the middle of the left side of the
  target shape; the cursor does not move. In every graph a conversion builds the centre
  line is at 150, the shapes are laid out in the order of their creation from 100 up to
  the cursor, and every flow has such an edge between the shapes of its two ends.
\<close>

theorem layout_rules:
  "currentX newFactory = 100 \<and>
   placed f EVENT_SIZE EVENT_SIZE (createStartEvent f) \<and>
   placed f EVENT_SIZE EVENT_SIZE (createEndEvent inc f) \<and>
   placed f TASK_WIDTH TASK_HEIGHT (createTask nm inc doc f) \<and>
   placed f GATEWAY_SIZE GATEWAY_SIZE (createExclusiveGateway nm inc f) \<and>
   placed f EVENT_SIZE EVENT_SIZE (createIntermediateEvent nm inc doc f) \<and>
   (find (\<lambda>d. bpmnElement d = s) (diElements f) = Some ss \<longrightarrow>
    find (\<lambda>d. bpmnElement d = t) (diElements f) = Some ts \<longrightarrow>
      (case createSequenceFlow s t c n f of (f', i) \<Rightarrow>
         diElements f' = diElements f @ [edge i (rightMiddle ss) (leftMiddle ts)] \<and>
         currentX f' = currentX f \<and> currentY f' = currentY f)) \<and>
   (buildGraph stack planDefinition = Inr (console, g) \<longrightarrow>
      currentY g = 150 \<and>
      laidOut 150 100 (diElements g) (currentX g) \<and>
      (\<forall>e\<in>set (elements g). el_type e = sequenceFlow \<longrightarrow> edgeJoins (diElements g) e))"
proof -
  have ev: "even EVENT_SIZE" and tk: "even TASK_HEIGHT" and gw: "even GATEWAY_SIZE"
    by (simp_all add: EVENT_SIZE_def TASK_HEIGHT_def GATEWAY_SIZE_def)
  have flowEdge: "find (\<lambda>d. bpmnElement d = s) (diElements f) = Some ss \<longrightarrow>
    find (\<lambda>d. bpmnElement d = t) (diElements f) = Some ts \<longrightarrow>
      (case createSequenceFlow s t c n f of (f', i) \<Rightarrow>
         diElements f' = diElements f @ [edge i (rightMiddle ss) (leftMiddle ts)] \<and>
         currentX f' = currentX f \<and> currentY f' = currentY f)"
    by (simp add: createSequenceFlow_def generateFlowId_def Let_def edgeFor_def edge_def
          rightMiddle_def leftMiddle_def)
  have ops: "currentX newFactory = 100 \<and>
   placed f EVENT_SIZE EVENT_SIZE (createStartEvent f) \<and>
   placed f EVENT_SIZE EVENT_SIZE (createEndEvent inc f) \<and>
   placed f TASK_WIDTH TASK_HEIGHT (createTask nm inc doc f) \<and>
   placed f GATEWAY_SIZE GATEWAY_SIZE (createExclusiveGateway nm inc f) \<and>
   placed f EVENT_SIZE EVENT_SIZE (createIntermediateEvent nm inc doc f)"
    unfolding createStartEvent_def createEndEvent_def createTask_def
      createExclusiveGateway_def createIntermediateEvent_def
    by (simp add: addNode_placed ev tk gw newFactory_def)
  have graph: "buildGraph stack planDefinition = Inr (console, g) \<longrightarrow>
      currentY g = 150 \<and>
      laidOut 150 100 (diElements g) (currentX g) \<and>
      (\<forall>e\<in>set (elements g). el_type e = sequenceFlow \<longrightarrow> edgeJoins (diElements g) e)"
  proof
    assume "buildGraph stack planDefinition = Inr (console, g)"
    then have "wellFormed g" by (rule buildGraph_wellFormed)
    then have "layoutOk g" by (simp add: wellFormed_def)
    then show "currentY g = 150 \<and>
      laidOut 150 100 (diElements g) (currentX g) \<and>
      (\<forall>e\<in>set (elements g). el_type e = sequenceFlow \<longrightarrow> edgeJoins (diElements g) e)"
      by (simp add: layoutOk_def)
  qed
  from ops flowEdge graph show ?thesis
    by (intro conjI) (elim conjE, assumption)+
qed

theorem layout_rules_witness:
  "find (\<lambda>d. bpmnElement d = ''StartEvent_1'')
      (diElements (fst (createTask ''A'' ''temp_incoming'' None
                          (fst (createStartEvent newFactory))))) =
     Some (shape ''StartEvent_1'' 100 132 36 36) \<and>
   find (\<lambda>d. bpmnElement d = ''Task_2'')
      (diElements (fst (createTask ''A'' ''temp_incoming'' None
                          (fst (createStartEvent newFactory))))) =
     Some (shape ''Task_2'' 316 110 120 80) \<and>
   diElements (fst (createSequenceFlow ''StartEvent_1'' ''Task_2'' None None
                      (fst (createTask ''A'' ''temp_incoming'' None
                              (fst (createStartEvent newFactory)))))) =
     [shape ''StartEvent_1'' 100 132 36 36, shape ''Task_2'' 316 110 120 80,
      edge ''Flow_1'' (136, 150) (316, 150)] \<and>
   buildGraph 10000 (plan None) =
     Inr ([Warn ''PlanDefinition has no actions''], snd (projr (buildGraph 10000 (plan None)))) \<and>
   elements (snd (projr (buildGraph 10000 (plan None)))) ! 2 \<in>
     set (elements (snd (projr (buildGraph 10000 (plan None))))) \<and>
   el_type (elements (snd (projr (buildGraph 10000 (plan None)))) ! 2) = sequenceFlow \<and>
   edgeJoins (diElements (snd (projr (buildGraph 10000 (plan None)))))
     (elements (snd (projr (buildGraph 10000 (plan None)))) ! 2) \<and>
   diElements (snd (projr (buildGraph 10000 (plan None)))) =
     [shape ''StartEvent_1'' 100 132 36 36, shape ''EndEvent_2'' 316 132 36 36,
      edge ''Flow_1'' (136, 150) (316, 150)] \<and>
   laidOut 150 100 (diElements (snd (projr (buildGraph 10000 (plan None))))) 532"
  using layout_rules [where f = "fst (createTask ''A'' ''temp_incoming'' None
                                        (fst (createStartEvent newFactory)))"
      and s = "''StartEvent_1''" and t = "''Task_2''"
      and ss = "shape ''StartEvent_1'' 100 132 36 36"
      and ts = "shape ''Task_2'' 316 110 120 80" and c = None and n = None
      and planDefinition = "plan None" and stack = 10000
      and console = "[Warn ''PlanDefinition has no actions'']"
      and g = "snd (projr (buildGraph 10000 (plan None)))"]
  by (simp add: exec edgeJoins_def HORIZONTAL_SPACING_def)


section \<open>Escaping\<close>



section \<open>Linkage of a converted graph\<close>

text \<open>
  What holds of the linkage lists in every graph a conversion builds: identifiers are
  distinct; both ends of every flow are nodes of the graph; the outgoing list of every
  node is exactly the flows that leave it, and its incoming list is the placeholder it
  was created with (nothing for the start event) followed by exactly the flows that
  enter it, each flow once.
\<close>

theorem converted_graph_linkage:
  assumes "buildGraph stack planDefinition = Inr (console, g)"
  shows "distinct (map el_id (elements g)) \<and>
   (\<forall>e\<in>set (elements g).
      el_type e = sequenceFlow \<longrightarrow>
        (\<exists>s t. sourceRef e = Some s \<and> targetRef e = Some t \<and> nodeIn g s \<and> nodeIn g t)) \<and>
   (\<forall>e\<in>set (elements g).
      el_type e \<noteq> sequenceFlow \<longrightarrow>
        listOf (outgoing e) = flowsFrom (elements g) (el_id e) \<and>
        listOf (incoming e) = seeded e @ flowsTo (elements g) (el_id e) \<and>
        distinct (flowsFrom (elements g) (el_id e)) \<and>
        distinct (flowsTo (elements g) (el_id e)))"
proof -
  from assms have wf: "wellFormed g" by (rule buildGraph_wellFormed)
  then have d: "distinct (map el_id (elements g))"
    by (simp add: wellFormed_def idsOk_def)
  then have dd: "distinct (flowsFrom (elements g) i)" "distinct (flowsTo (elements g) i)" for i
    by (simp_all add: flowsFrom_def flowsTo_def distinct_map_filter)
  from wf have "endsOk g" and "linksOk g"
    by (simp_all add: wellFormed_def)
  with d dd show ?thesis
    by (simp add: endsOk_def linksOk_def linked_def)
qed

end
